theory Spec2Isabelle
  imports Complex_Main "HOL-Library.Word" "HOL-Library.Sublist" "HOL-Library.AList"
begin

section \<open>gles3jni.cpp: bouncing instanced quads\<close>

text \<open>
  A shallow embedding of \<^verbatim>\<open>gles3jni/app/src/main/cpp/gles3jni.cpp\<close>: the shader and
  program helpers, the \<^verbatim>\<open>Renderer\<close> simulation (\<^verbatim>\<open>calcSceneParams\<close>,
  \<^verbatim>\<open>resize\<close>, \<^verbatim>\<open>step\<close>, \<^verbatim>\<open>render\<close>) and the three JNI entry points.

  Conventions of the embedding.
  \<^item> A C \<^verbatim>\<open>float\<close> or \<^verbatim>\<open>double\<close> value is the \<^typ>\<open>real\<close> number it denotes. Every
    operation whose result the code holds in a \<^verbatim>\<open>float\<close> or a \<^verbatim>\<open>double\<close> rounds it, with
    the function \<open>f32\<close> or \<open>f64\<close> of a floating-point unit that is an argument of the
    model. An operation is evaluated in the format of its C type (\<^verbatim>\<open>float\<close> with
    \<^verbatim>\<open>float\<close> in binary32, anything with a \<^verbatim>\<open>double\<close> operand in binary64), one rounding
    per operation, no fused multiply-add. The unit \<open>ieee\<close> rounds to the nearest binary32 or
    binary64 number, ties to even, with subnormal numbers; the unit \<open>exact\<close> does not round.
    A result beyond the largest finite number is rounded as if the top binade went on (the
    simulation never gets there). The two divisions of the file
    can leave the finite numbers through a zero divisor; their results have a type of
    their own, with the infinities and NaN.
  \<^item> \<^verbatim>\<open>int\<close>, \<^verbatim>\<open>jint\<close> and \<^verbatim>\<open>unsigned int\<close> are \<^typ>\<open>32 word\<close> (read signed with
    \<^const>\<open>sint\<close>, unsigned with \<^const>\<open>unat\<close>); the nanosecond time stamps are
    \<^typ>\<open>64 word\<close>, with the wrap-around of \<^verbatim>\<open>unsigned long long\<close>.
  \<^item> What the file reads from outside is an argument: the clock value seen by
    \<^verbatim>\<open>clock_gettime\<close>, the sequence of values returned by \<^verbatim>\<open>drand48\<close>, what a newly
    allocated array happens to contain, the answers of the GL driver, and the constants
    that the header \<^verbatim>\<open>gles3jni.h\<close> defines.
  \<^item> What the file writes outside the \<^verbatim>\<open>Renderer\<close> object (log lines, GL objects, GL
    commands) is collected in an explicit environment record.
\<close>

subsection \<open>Floating-point arithmetic\<close>

text \<open>Rounding of a real to the nearest integer, ties to the even one.\<close>

definition round_even :: "real \<Rightarrow> int" where
  "round_even y =
     (if y - of_int \<lfloor>y\<rfloor> < 1 / 2 then \<lfloor>y\<rfloor>
      else if 1 / 2 < y - of_int \<lfloor>y\<rfloor> then \<lfloor>y\<rfloor> + 1
      else if even \<lfloor>y\<rfloor> then \<lfloor>y\<rfloor> else \<lfloor>y\<rfloor> + 1)"

text \<open>
  A binary format: the number of significand bits, and the exponents of the smallest and
  of the largest normal binade.
\<close>

record fformat =
  prec :: nat
  emin :: int
  emax :: int

definition binary32 :: fformat where
  "binary32 = \<lparr>prec = 24, emin = - 126, emax = 127\<rparr>"

definition binary64 :: fformat where
  "binary64 = \<lparr>prec = 53, emin = - 1022, emax = 1023\<rparr>"

text \<open>
  \<open>binade n e x\<close> is the exponent of the binade of \<open>x \<ge> 0\<close>, searched upwards from \<open>e\<close> in
  at most \<open>n\<close> steps: the least \<open>k \<ge> e\<close> with \<open>x < 2 powi (k + 1)\<close>. Starting at \<open>emin\<close> makes
  the subnormal numbers share the quantum of the smallest normal binade.
\<close>

fun binade :: "nat \<Rightarrow> int \<Rightarrow> real \<Rightarrow> int" where
  "binade 0 e x = e"
| "binade (Suc n) e x = (if 2 powi (e + 1) \<le> x then binade n (e + 1) x else e)"

definition expo :: "fformat \<Rightarrow> real \<Rightarrow> int" where
  "expo f x = binade (nat (emax f - emin f)) (emin f) \<bar>x\<bar>"

text \<open>The spacing of the numbers of the format around \<open>x\<close>, and rounding to a multiple of it.\<close>

definition quantum :: "fformat \<Rightarrow> real \<Rightarrow> real" where
  "quantum f x = 2 powi (expo f x - (int (prec f) - 1))"

definition rne :: "fformat \<Rightarrow> real \<Rightarrow> real" where
  "rne f x = of_int (round_even (x / quantum f x)) * quantum f x"

text \<open>The floating-point unit: how a result is rounded to \<^verbatim>\<open>float\<close> and to \<^verbatim>\<open>double\<close>.\<close>

record fpu =
  f32 :: "real \<Rightarrow> real"
  f64 :: "real \<Rightarrow> real"

definition ieee :: fpu where
  "ieee = \<lparr>f32 = rne binary32, f64 = rne binary64\<rparr>"

definition exact :: fpu where
  "exact = \<lparr>f32 = (\<lambda>x. x), f64 = (\<lambda>x. x)\<rparr>"

text \<open>
  The value of a \<^verbatim>\<open>float\<close> that a division produces, and \<^verbatim>\<open>float\<close> division: a zero
  divisor gives NaN for \<open>0 / 0\<close> and an infinity otherwise. (The divisors of the file are
  never negative zeros.)
\<close>

datatype fval = Fin real | PosInf | NegInf | NaN

definition fdiv32 :: "fpu \<Rightarrow> real \<Rightarrow> real \<Rightarrow> fval" where
  "fdiv32 fp a b =
     (if b = 0 then (if a = 0 then NaN else if 0 < a then PosInf else NegInf)
      else Fin (f32 fp (a / b)))"

subsection \<open>Logging\<close>

datatype log_arg = Str string | Hex "32 word" | Flt fval

text \<open>
  One constructor per logging call of the source. The format string and the arguments are
  recorded as passed; \<^verbatim>\<open>printf\<close> formatting itself is not modelled.
\<close>

datatype log_entry =
    ALOGE string "log_arg list"
  | ALOGV string "log_arg list"
  | LOG_INFO string string "log_arg list"

subsection \<open>GL objects and the environment\<close>

type_synonym GLuint = "32 word"
type_synonym GLenum = "32 word"

datatype shader_type = GL_VERTEX_SHADER | GL_FRAGMENT_SHADER

record shader_obj =
  stype :: shader_type
  source :: string
  compiled :: bool
  shaderInfoLog :: string
  deleteFlag :: bool

record program_obj =
  attached :: "GLuint list"
  linked :: bool
  programInfoLog :: string

datatype gl_cmd =
    GlViewport "32 word" "32 word" "32 word" "32 word"
  | GlClearColor real real real real
  | GlClear "32 word"
  | Draw nat

text \<open>
  The GL object tables are association lists from object names to objects, read with
  \<^const>\<open>map_of\<close>; the log and the GL commands issued are lists in order of emission.
\<close>

record env =
  shaders :: "(GLuint \<times> shader_obj) list"
  programs :: "(GLuint \<times> program_obj) list"
  glError :: GLenum
  logcat :: "log_entry list"
  commands :: "gl_cmd list"

definition GL_NO_ERROR :: GLenum where
  "GL_NO_ERROR = 0"

definition GL_INVALID_VALUE :: GLenum where
  "GL_INVALID_VALUE = 0x0501"

definition GL_INVALID_OPERATION :: GLenum where
  "GL_INVALID_OPERATION = 0x0502"

definition GL_COLOR_BUFFER_BIT :: "32 word" where
  "GL_COLOR_BUFFER_BIT = 0x00004000"

definition GL_DEPTH_BUFFER_BIT :: "32 word" where
  "GL_DEPTH_BUFFER_BIT = 0x00000100"

text \<open>The GL error flag keeps the first error until \<^verbatim>\<open>glGetError\<close> reads and clears it.\<close>

definition raise_gl_error :: "GLenum \<Rightarrow> env \<Rightarrow> env" where
  "raise_gl_error code e = (if glError e = GL_NO_ERROR then e\<lparr>glError := code\<rparr> else e)"

definition glGetError :: "env \<Rightarrow> GLenum \<times> env" where
  "glGetError e = (glError e, e\<lparr>glError := GL_NO_ERROR\<rparr>)"

definition log_print :: "log_entry \<Rightarrow> env \<Rightarrow> env" where
  "log_print l e = e\<lparr>logcat := logcat e @ [l]\<rparr>"

definition gl_command :: "gl_cmd \<Rightarrow> env \<Rightarrow> env" where
  "gl_command cmd e = e\<lparr>commands := commands e @ [cmd]\<rparr>"

text \<open>\<^verbatim>\<open>bool checkGlError(const char *funcName)\<close>, lines 33 to 40.\<close>

definition checkGlError :: "string \<Rightarrow> env \<Rightarrow> bool \<times> env" where
  "checkGlError funcName e =
     (case glGetError e of (err, e1) \<Rightarrow>
        if err \<noteq> GL_NO_ERROR
        then (True, log_print (ALOGE ''GL error after %s(): 0x%08x\<newline>'' [Str funcName, Hex err]) e1)
        else (False, e1))"

subsection \<open>The GL driver\<close>

text \<open>
  What the driver decides: the name a create call returns (0 for failure), the outcome and
  the info log of a compilation and of a link, the error code it raises when a create call
  fails, and whether \<^verbatim>\<open>malloc\<close> of a given size succeeds.
\<close>

record gl_driver =
  newShaderName :: "env \<Rightarrow> shader_type \<Rightarrow> GLuint"
  compileResult :: "shader_type \<Rightarrow> string \<Rightarrow> bool \<times> string"
  newProgramName :: "env \<Rightarrow> GLuint"
  linkResult :: "shader_obj option list \<Rightarrow> bool \<times> string"
  createError :: GLenum
  mallocOk :: "nat \<Rightarrow> bool"

text \<open>
  The GL calls that \<^verbatim>\<open>createShader\<close> and \<^verbatim>\<open>createProgram\<close> make, after the
  OpenGL ES specification. A query on a name that is no object raises an error and leaves
  the caller's variable as it was initialised (\<^verbatim>\<open>GL_FALSE\<close>, 0).
\<close>

definition glCreateShader :: "gl_driver \<Rightarrow> shader_type \<Rightarrow> env \<Rightarrow> GLuint \<times> env" where
  "glCreateShader d t e =
     (let n = newShaderName d e t in
      if n = 0 then (0, raise_gl_error (createError d) e)
      else (n, e\<lparr>shaders := AList.update n
                  \<lparr>stype = t, source = [], compiled = False, shaderInfoLog = [], deleteFlag = False\<rparr>
                  (shaders e)\<rparr>))"

definition update_shader :: "GLuint \<Rightarrow> (shader_obj \<Rightarrow> shader_obj) \<Rightarrow> env \<Rightarrow> env" where
  "update_shader n f e =
     (case map_of (shaders e) n of
        None \<Rightarrow> raise_gl_error GL_INVALID_VALUE e
      | Some s \<Rightarrow> e\<lparr>shaders := AList.update n (f s) (shaders e)\<rparr>)"

definition glShaderSource :: "GLuint \<Rightarrow> string \<Rightarrow> env \<Rightarrow> env" where
  "glShaderSource n src e = update_shader n (\<lambda>s. s\<lparr>source := src\<rparr>) e"

definition glCompileShader :: "gl_driver \<Rightarrow> GLuint \<Rightarrow> env \<Rightarrow> env" where
  "glCompileShader d n e =
     update_shader n
       (\<lambda>s. s\<lparr>compiled := fst (compileResult d (stype s) (source s)),
               shaderInfoLog := snd (compileResult d (stype s) (source s))\<rparr>) e"

definition glGetShaderiv_COMPILE_STATUS :: "GLuint \<Rightarrow> env \<Rightarrow> bool" where
  "glGetShaderiv_COMPILE_STATUS n e =
     (case map_of (shaders e) n of None \<Rightarrow> False | Some s \<Rightarrow> compiled s)"

text \<open>The length of an info log counts its terminating NUL; an empty log has length 0.\<close>

definition info_log_length :: "string \<Rightarrow> nat" where
  "info_log_length l = (if l = [] then 0 else length l + 1)"

definition glGetShaderiv_INFO_LOG_LENGTH :: "GLuint \<Rightarrow> env \<Rightarrow> nat" where
  "glGetShaderiv_INFO_LOG_LENGTH n e =
     (case map_of (shaders e) n of None \<Rightarrow> 0 | Some s \<Rightarrow> info_log_length (shaderInfoLog s))"

definition glGetShaderInfoLog :: "GLuint \<Rightarrow> nat \<Rightarrow> env \<Rightarrow> string" where
  "glGetShaderInfoLog n bufSize e =
     (case map_of (shaders e) n of None \<Rightarrow> [] | Some s \<Rightarrow> take (bufSize - 1) (shaderInfoLog s))"

definition is_attached :: "GLuint \<Rightarrow> env \<Rightarrow> bool" where
  "is_attached n e = list_ex (\<lambda>po. n \<in> set (attached (snd po))) (programs e)"

text \<open>
  \<^verbatim>\<open>glDeleteShader\<close>: 0 is silently ignored; a shader attached to a program is only
  flagged for deletion; any other shader is deleted.
\<close>

definition glDeleteShader :: "GLuint \<Rightarrow> env \<Rightarrow> env" where
  "glDeleteShader n e =
     (if n = 0 then e
      else case map_of (shaders e) n of
        None \<Rightarrow> raise_gl_error GL_INVALID_VALUE e
      | Some s \<Rightarrow>
          if is_attached n e
          then e\<lparr>shaders := AList.update n (s\<lparr>deleteFlag := True\<rparr>) (shaders e)\<rparr>
          else e\<lparr>shaders := AList.delete n (shaders e)\<rparr>)"

definition glCreateProgram :: "gl_driver \<Rightarrow> env \<Rightarrow> GLuint \<times> env" where
  "glCreateProgram d e =
     (let n = newProgramName d e in
      if n = 0 then (0, raise_gl_error (createError d) e)
      else (n, e\<lparr>programs := AList.update n
                  \<lparr>attached = [], linked = False, programInfoLog = []\<rparr> (programs e)\<rparr>))"

definition glAttachShader :: "GLuint \<Rightarrow> GLuint \<Rightarrow> env \<Rightarrow> env" where
  "glAttachShader p n e =
     (case map_of (programs e) p of
        None \<Rightarrow> raise_gl_error GL_INVALID_VALUE e
      | Some po \<Rightarrow>
          (case map_of (shaders e) n of
             None \<Rightarrow> raise_gl_error GL_INVALID_VALUE e
           | Some s \<Rightarrow>
               if n \<in> set (attached po) then raise_gl_error GL_INVALID_OPERATION e
               else e\<lparr>programs := AList.update p (po\<lparr>attached := attached po @ [n]\<rparr>) (programs e)\<rparr>))"

definition glLinkProgram :: "gl_driver \<Rightarrow> GLuint \<Rightarrow> env \<Rightarrow> env" where
  "glLinkProgram d p e =
     (case map_of (programs e) p of
        None \<Rightarrow> raise_gl_error GL_INVALID_VALUE e
      | Some po \<Rightarrow>
          e\<lparr>programs := AList.update p
               (po\<lparr>linked := fst (linkResult d (map (map_of (shaders e)) (attached po))),
                   programInfoLog := snd (linkResult d (map (map_of (shaders e)) (attached po)))\<rparr>)
               (programs e)\<rparr>)"

definition glGetProgramiv_LINK_STATUS :: "GLuint \<Rightarrow> env \<Rightarrow> bool" where
  "glGetProgramiv_LINK_STATUS p e =
     (case map_of (programs e) p of None \<Rightarrow> False | Some po \<Rightarrow> linked po)"

definition glGetProgramiv_INFO_LOG_LENGTH :: "GLuint \<Rightarrow> env \<Rightarrow> nat" where
  "glGetProgramiv_INFO_LOG_LENGTH p e =
     (case map_of (programs e) p of None \<Rightarrow> 0 | Some po \<Rightarrow> info_log_length (programInfoLog po))"

definition glGetProgramInfoLog :: "GLuint \<Rightarrow> nat \<Rightarrow> env \<Rightarrow> string" where
  "glGetProgramInfoLog p bufSize e =
     (case map_of (programs e) p of None \<Rightarrow> [] | Some po \<Rightarrow> take (bufSize - 1) (programInfoLog po))"

text \<open>
  A shader detached from a deleted program goes away with it when it was flagged for
  deletion and no other program holds it.
\<close>

definition release_detached :: "GLuint \<Rightarrow> env \<Rightarrow> env" where
  "release_detached n e =
     (case map_of (shaders e) n of
        None \<Rightarrow> e
      | Some s \<Rightarrow>
          if deleteFlag s \<and> \<not> is_attached n e
          then e\<lparr>shaders := AList.delete n (shaders e)\<rparr>
          else e)"

definition glDeleteProgram :: "GLuint \<Rightarrow> env \<Rightarrow> env" where
  "glDeleteProgram p e =
     (if p = 0 then e
      else case map_of (programs e) p of
        None \<Rightarrow> raise_gl_error GL_INVALID_VALUE e
      | Some po \<Rightarrow> fold release_detached (attached po) (e\<lparr>programs := AList.delete p (programs e)\<rparr>))"

subsection \<open>Shader and program helpers\<close>

text \<open>\<^verbatim>\<open>GLuint createShader(GLenum shaderType, const char *src)\<close>, lines 42 to 71.\<close>

definition createShader :: "gl_driver \<Rightarrow> shader_type \<Rightarrow> string \<Rightarrow> env \<Rightarrow> GLuint \<times> env" where
  "createShader d shaderType src e =
     (case glCreateShader d shaderType e of (shader, e1) \<Rightarrow>
        if shader = 0 then (0, snd (checkGlError ''glCreateShader'' e1))
        else
          let e2 = glShaderSource shader src e1;
              e3 = glCompileShader d shader e2
          in if \<not> glGetShaderiv_COMPILE_STATUS shader e3
             then
               let infoLogLen = glGetShaderiv_INFO_LOG_LENGTH shader e3;
                   e4 = (if infoLogLen > 0
                         then (if mallocOk d infoLogLen
                               then log_print
                                      (ALOGE ''Could not compile %s shader:\<newline>%s\<newline>''
                                         [Str (if shaderType = GL_VERTEX_SHADER then ''vertex'' else ''fragment''),
                                          Str (glGetShaderInfoLog shader infoLogLen e3)]) e3
                               else e3)
                         else e3)
               in (0, glDeleteShader shader e4)
             else (shader, e3))"

text \<open>The code after the label \<^verbatim>\<open>exit:\<close> of \<^verbatim>\<open>createProgram\<close>, lines 113 to 116.\<close>

definition createProgram_exit :: "GLuint \<Rightarrow> GLuint \<Rightarrow> GLuint \<Rightarrow> env \<Rightarrow> GLuint \<times> env" where
  "createProgram_exit vtxShader fragShader program e =
     (program, glDeleteShader fragShader (glDeleteShader vtxShader e))"

text \<open>\<^verbatim>\<open>GLuint createProgram(const char *vtxSrc, const char *fragSrc)\<close>, lines 73 to 117.\<close>

definition createProgram :: "gl_driver \<Rightarrow> string \<Rightarrow> string \<Rightarrow> env \<Rightarrow> GLuint \<times> env" where
  "createProgram d vtxSrc fragSrc e =
     (case createShader d GL_VERTEX_SHADER vtxSrc e of (vtxShader, e1) \<Rightarrow>
        if vtxShader = 0 then createProgram_exit vtxShader 0 0 e1
        else
          (case createShader d GL_FRAGMENT_SHADER fragSrc e1 of (fragShader, e2) \<Rightarrow>
             if fragShader = 0 then createProgram_exit vtxShader fragShader 0 e2
             else
               (case glCreateProgram d e2 of (program, e3) \<Rightarrow>
                  if program = 0
                  then createProgram_exit vtxShader fragShader program
                         (snd (checkGlError ''glCreateProgram'' e3))
                  else
                    let e4 = glAttachShader program vtxShader e3;
                        e5 = glAttachShader program fragShader e4;
                        e6 = glLinkProgram d program e5
                    in if \<not> glGetProgramiv_LINK_STATUS program e6
                       then
                         let e7 = log_print (ALOGE ''Could not link program'' []) e6;
                             infoLogLen = glGetProgramiv_INFO_LOG_LENGTH program e7;
                             e8 = (if infoLogLen \<noteq> 0
                                   then (if mallocOk d infoLogLen
                                         then log_print
                                                (ALOGE ''Could not link program:\<newline>%s\<newline>''
                                                   [Str (glGetProgramInfoLog program infoLogLen e7)]) e7
                                         else e7)
                                   else e7);
                             e9 = glDeleteProgram program e8
                         in createProgram_exit vtxShader fragShader 0 e9
                       else createProgram_exit vtxShader fragShader program e6)))"

subsection \<open>The Renderer object\<close>

text \<open>
  The constants that the header \<^verbatim>\<open>gles3jni.h\<close> defines and this file uses. Their values
  are not fixed here: they are parameters of every operation. The two angle constants are
  taken as \<^verbatim>\<open>double\<close> values.
\<close>

record header_consts =
  MAX_INSTANCES_ITEM :: nat
  TWO_PI :: real
  MAX_ROT_SPEED :: real

text \<open>
  The fields of \<^verbatim>\<open>class Renderer\<close> that the source touches. \<^verbatim>\<open>float mScale[2]\<close> is a
  pair. \<^verbatim>\<open>offsetBuf\<close> is the per-instance offset buffer that the subclass hands out
  through \<^verbatim>\<open>mapOffsetBuf()\<close>; the source only writes to it.
\<close>

record renderer =
  mNumInstances :: nat
  mScale :: "fval \<times> fval"
  mAngularVelocity :: "real list"
  mLastFrameNs :: "64 word"
  mAngles :: "real list"
  localOffset :: "real list"
  mVx :: "real list"
  mVy :: "real list"
  offsetRatio :: real
  offsetBuf :: "real list"

text \<open>
  Body of the loop of \<^verbatim>\<open>calcSceneParams\<close>, lines 160 to 165. \<open>drand48 k\<close> is the value
  returned by the \<open>k\<close>-th call of \<^verbatim>\<open>drand48()\<close> made during one \<^verbatim>\<open>resize\<close>, counted
  from 0: iteration \<open>i\<close> makes the calls \<open>3 * i\<close>, \<open>3 * i + 1\<close> and \<open>3 * i + 2\<close>. The
  subtraction and the multiplication are \<^verbatim>\<open>double\<close> operations, the assignment rounds to
  \<^verbatim>\<open>float\<close>.
\<close>

definition calc_body :: "fpu \<Rightarrow> (nat \<Rightarrow> real) \<Rightarrow> nat \<Rightarrow> renderer \<Rightarrow> renderer" where
  "calc_body fp drand48 i r =
     (let r1 = r\<lparr>localOffset := (localOffset r)
                  [i := f32 fp (f64 fp (f64 fp (drand48 (3 * i) - 0.5) * offsetRatio r))]\<rparr>;
          r2 = r1\<lparr>mVx := (mVx r1)
                  [i := f32 fp (f64 fp (f64 fp (drand48 (3 * i + 1) - 0.5) * 10.0))]\<rparr>;
          r3 = r2\<lparr>mVy := (mVy r2)
                  [i := f32 fp (f64 fp (f64 fp (drand48 (3 * i + 2) - 0.5) * 10.0))]\<rparr>
      in r3\<lparr>offsetBuf := (offsetBuf r3)[i := localOffset r3 ! i]\<rparr>)"

text \<open>\<^verbatim>\<open>for (int i = 0; i < MAX_INSTANCES_ITEM * 2; ++i)\<close>\<close>

function calc_loop :: "fpu \<Rightarrow> header_consts \<Rightarrow> (nat \<Rightarrow> real) \<Rightarrow> nat \<Rightarrow> renderer \<Rightarrow> renderer" where
  "calc_loop fp c drand48 i r =
     (if i < MAX_INSTANCES_ITEM c * 2
      then calc_loop fp c drand48 (i + 1) (calc_body fp drand48 i r)
      else r)"
  by pat_completeness auto
termination
  by (relation "measure (\<lambda>(fp, c, d, i, r). MAX_INSTANCES_ITEM c * 2 - i)") auto

declare calc_loop.simps [simp del]

text \<open>
  \<^verbatim>\<open>void Renderer::calcSceneParams(unsigned int w, unsigned int h, float *offsets)\<close>,
  lines 153 to 169. The three arrays are allocated afresh with \<open>2 * MAX_INSTANCES_ITEM\<close>
  elements each. \<^verbatim>\<open>new float[n]\<close> leaves the elements indeterminate: \<open>junk k j\<close> is what
  element \<open>j\<close> of the \<open>k\<close>-th array happens to hold. \<open>w\<close> and \<open>h\<close> arrive as
  \<^verbatim>\<open>unsigned int\<close> and are converted to \<^verbatim>\<open>float\<close>; \<^verbatim>\<open>ratio * h / w\<close> is a \<^verbatim>\<open>float\<close>
  product followed by a \<^verbatim>\<open>float\<close> division.
\<close>

definition calcSceneParams ::
  "fpu \<Rightarrow> header_consts \<Rightarrow> (nat \<Rightarrow> real) \<Rightarrow> (nat \<Rightarrow> nat \<Rightarrow> real) \<Rightarrow> 32 word \<Rightarrow> 32 word \<Rightarrow>
   renderer \<Rightarrow> renderer" where
  "calcSceneParams fp c drand48 junk w h r =
     (let r1 = r\<lparr>mNumInstances := MAX_INSTANCES_ITEM c,
                  localOffset := map (junk 0) [0..<MAX_INSTANCES_ITEM c * 2],
                  mVx := map (junk 1) [0..<MAX_INSTANCES_ITEM c * 2],
                  mVy := map (junk 2) [0..<MAX_INSTANCES_ITEM c * 2],
                  offsetRatio := f32 fp 2.0\<rparr>;
          r2 = calc_loop fp c drand48 0 r1;
          ratio = f32 fp 0.1
      in r2\<lparr>mScale := (Fin ratio,
                         fdiv32 fp (f32 fp (ratio * f32 fp (real (unat h)))) (f32 fp (real (unat w))))\<rparr>)"

text \<open>
  The loop of \<^verbatim>\<open>resize\<close>, lines 143 to 146. It runs after \<^verbatim>\<open>calcSceneParams\<close> has made
  \<open>6 * MAX_INSTANCES_ITEM\<close> calls of \<^verbatim>\<open>drand48()\<close>. The two arrays have a size fixed by
  the header; a list update beyond the end leaves the list as it is.
\<close>

definition angle_body :: "fpu \<Rightarrow> header_consts \<Rightarrow> (nat \<Rightarrow> real) \<Rightarrow> nat \<Rightarrow> renderer \<Rightarrow> renderer" where
  "angle_body fp c drand48 i r =
     (let r1 = r\<lparr>mAngles := (mAngles r)
                  [i := f32 fp (f64 fp (drand48 (6 * MAX_INSTANCES_ITEM c + 2 * i) * TWO_PI c))]\<rparr>
      in r1\<lparr>mAngularVelocity := (mAngularVelocity r1)
               [i := f32 fp (f64 fp (MAX_ROT_SPEED c *
                       f64 fp (f64 fp (2.0 * drand48 (6 * MAX_INSTANCES_ITEM c + 2 * i + 1)) - 1.0)))]\<rparr>)"

function angle_loop :: "fpu \<Rightarrow> header_consts \<Rightarrow> (nat \<Rightarrow> real) \<Rightarrow> nat \<Rightarrow> renderer \<Rightarrow> renderer" where
  "angle_loop fp c drand48 i r =
     (if i < mNumInstances r
      then angle_loop fp c drand48 (i + 1) (angle_body fp c drand48 i r)
      else r)"
  by pat_completeness auto
termination
  by (relation "measure (\<lambda>(fp, c, d, i, r). mNumInstances r - i)") (auto simp: angle_body_def Let_def)

declare angle_loop.simps [simp del]

text \<open>\<^verbatim>\<open>void Renderer::resize(int w, int h)\<close>, lines 137 to 151.\<close>

definition resize ::
  "fpu \<Rightarrow> header_consts \<Rightarrow> (nat \<Rightarrow> real) \<Rightarrow> (nat \<Rightarrow> nat \<Rightarrow> real) \<Rightarrow> 32 word \<Rightarrow> 32 word \<Rightarrow>
   renderer \<times> env \<Rightarrow> renderer \<times> env" where
  "resize fp c drand48 junk w h re =
     (case re of (r, e) \<Rightarrow>
        let r1 = calcSceneParams fp c drand48 junk w h r;
            r2 = angle_loop fp c drand48 0 r1;
            r3 = r2\<lparr>mLastFrameNs := 0\<rparr>
        in (r3, gl_command (GlViewport 0 0 w h) e))"

text \<open>The value that \<^verbatim>\<open>clock_gettime(CLOCK_MONOTONIC, &now)\<close> stores.\<close>

record timespec =
  tv_sec :: int
  tv_nsec :: int

text \<open>\<^verbatim>\<open>now.tv_sec * 1000000000ull + now.tv_nsec\<close>, in \<^verbatim>\<open>unsigned long long\<close>.\<close>

definition nowNs :: "timespec \<Rightarrow> 64 word" where
  "nowNs now = word_of_int (tv_sec now) * 1000000000 + word_of_int (tv_nsec now)"

text \<open>
  \<^verbatim>\<open>float dt = float(nowNs - mLastFrameNs) * 0.000000001f\<close>: the difference is converted
  to \<^verbatim>\<open>float\<close>, the literal is a \<^verbatim>\<open>float\<close>, the product is a \<^verbatim>\<open>float\<close>.
\<close>

definition frame_dt :: "fpu \<Rightarrow> renderer \<Rightarrow> timespec \<Rightarrow> real" where
  "frame_dt fp r now =
     f32 fp (f32 fp (real (unat (nowNs now - mLastFrameNs r))) * f32 fp 0.000000001)"

text \<open>
  Body of the loop of \<^verbatim>\<open>step\<close>, lines 201 to 213. Instance \<open>i div 2\<close> has its position
  in \<open>localOffset[i]\<close>, \<open>localOffset[i + 1]\<close> and its velocity in \<open>mVx[i]\<close>, \<open>mVy[i]\<close>.
  In \<^verbatim>\<open>localOffset[i] += mVx[i] * dt * 0.1\<close> the first product is a \<^verbatim>\<open>float\<close>, the
  product with the \<^verbatim>\<open>double\<close> literal and the sum are \<^verbatim>\<open>double\<close>, and the assignment
  rounds to \<^verbatim>\<open>float\<close>; the comparisons read the value that was stored. In
  \<^verbatim>\<open>2 * mVx[i] * dt * 0.1\<close> the integer 2 is converted to \<^verbatim>\<open>float\<close> and the first two
  products are \<^verbatim>\<open>float\<close>.
\<close>

definition step_body :: "fpu \<Rightarrow> real \<Rightarrow> nat \<Rightarrow> renderer \<Rightarrow> renderer" where
  "step_body fp dt i r =
     (let r1 = r\<lparr>localOffset := (localOffset r)
                  [i := f32 fp (f64 fp (localOffset r ! i + f64 fp (f32 fp (mVx r ! i * dt) * f64 fp 0.1)))]\<rparr>;
          r2 = (if localOffset r1 ! i > 1.0 \<or> localOffset r1 ! i < - 1.0
                then r1\<lparr>localOffset := (localOffset r1)
                          [i := f32 fp (f64 fp (localOffset r1 ! i -
                                  f64 fp (f32 fp (f32 fp (f32 fp 2 * mVx r1 ! i) * dt) * f64 fp 0.1)))],
                        mVx := (mVx r1)[i := - mVx r1 ! i]\<rparr>
                else r1);
          r3 = r2\<lparr>offsetBuf := (offsetBuf r2)[i := localOffset r2 ! i]\<rparr>;
          r4 = r3\<lparr>localOffset := (localOffset r3)
                  [i + 1 := f32 fp (f64 fp (localOffset r3 ! (i + 1) +
                              f64 fp (f32 fp (mVy r3 ! i * dt) * f64 fp 0.1)))]\<rparr>;
          r5 = (if localOffset r4 ! (i + 1) > 1.0 \<or> localOffset r4 ! (i + 1) < - 1.0
                then r4\<lparr>localOffset := (localOffset r4)
                          [i + 1 := f32 fp (f64 fp (localOffset r4 ! (i + 1) -
                                      f64 fp (f32 fp (f32 fp (f32 fp 2 * mVy r4 ! i) * dt) * f64 fp 0.1)))],
                        mVy := (mVy r4)[i := - mVy r4 ! i]\<rparr>
                else r4)
      in r5\<lparr>offsetBuf := (offsetBuf r5)[i + 1 := localOffset r5 ! (i + 1)]\<rparr>)"

text \<open>\<^verbatim>\<open>for (int i = 0; i < 2 * MAX_INSTANCES_ITEM - 1; i += 2)\<close>\<close>

function step_loop :: "fpu \<Rightarrow> header_consts \<Rightarrow> real \<Rightarrow> nat \<Rightarrow> renderer \<Rightarrow> renderer" where
  "step_loop fp c dt i r =
     (if int i < 2 * int (MAX_INSTANCES_ITEM c) - 1
      then step_loop fp c dt (i + 2) (step_body fp dt i r)
      else r)"
  by pat_completeness auto
termination
  by (relation "measure (\<lambda>(fp, c, dt, i, r). 2 * MAX_INSTANCES_ITEM c - i)") auto

declare step_loop.simps [simp del]

text \<open>
  \<^verbatim>\<open>void Renderer::step()\<close>, lines 171 to 222; \<open>now\<close> is what the clock returns. The
  frame rate that the source logs is the \<^verbatim>\<open>float\<close> quotient \<^verbatim>\<open>1 / dt\<close>.
\<close>

definition step :: "fpu \<Rightarrow> header_consts \<Rightarrow> timespec \<Rightarrow> renderer \<times> env \<Rightarrow> renderer \<times> env" where
  "step fp c now re =
     (case re of (r, e) \<Rightarrow>
        if mLastFrameNs r > 0
        then
          let dt = frame_dt fp r now;
              e1 = log_print (LOG_INFO ''step'' ''fps:%f'' [Flt (fdiv32 fp (f32 fp 1) dt)]) e;
              r1 = step_loop fp c dt 0 r
          in (r1\<lparr>mLastFrameNs := nowNs now\<rparr>, e1)
        else (r\<lparr>mLastFrameNs := nowNs now\<rparr>, e))"

text \<open>
  Modelled from the spec: \<^verbatim>\<open>draw()\<close> is a pure virtual function of \<^verbatim>\<open>Renderer\<close>; its
  implementations, in the ES2 and ES3 subclasses, are missing from this file. The spec says
  that \<^verbatim>\<open>render()\<close> "issues an instanced draw of the fixed quad". The model records the
  draw call and its instance count.
\<close>

definition draw :: "nat \<Rightarrow> env \<Rightarrow> env" where
  "draw numInstances e = gl_command (Draw numInstances) e"

text \<open>\<^verbatim>\<open>void Renderer::render()\<close>, lines 224 to 231.\<close>

definition render :: "fpu \<Rightarrow> header_consts \<Rightarrow> timespec \<Rightarrow> renderer \<times> env \<Rightarrow> renderer \<times> env" where
  "render fp c now re =
     (case step fp c now re of (r1, e1) \<Rightarrow>
        let e2 = gl_command (GlClearColor (f32 fp 0.2) (f32 fp 0.2) (f32 fp 0.3) (f32 fp 1.0)) e1;
            e3 = gl_command (GlClear (or GL_COLOR_BUFFER_BIT GL_DEPTH_BUFFER_BIT)) e2;
            e4 = draw (mNumInstances r1) e3
        in (r1, snd (checkGlError ''Renderer::render'' e4)))"

text \<open>A run of \<^verbatim>\<open>step()\<close> calls, one per clock value of the list.\<close>

fun steps :: "fpu \<Rightarrow> header_consts \<Rightarrow> timespec list \<Rightarrow> renderer \<times> env \<Rightarrow> renderer \<times> env" where
  "steps fp c [] re = re"
| "steps fp c (now # ts) re = steps fp c ts (step fp c now re)"

subsection \<open>The JNI entry points\<close>

datatype gl_string = GL_VERSION | GL_VENDOR | GL_RENDERER | GL_EXTENSIONS

text \<open>
  What \<^verbatim>\<open>init\<close> gets from outside the file: the strings of \<^verbatim>\<open>glGetString\<close> (a GL
  context is current, so that it returns strings) and the two factory functions
  \<^verbatim>\<open>createES3Renderer\<close> and \<^verbatim>\<open>createES2Renderer\<close>, which this file only calls. A factory
  returns a renderer or a null pointer, and may log and create GL objects.
\<close>

record platform =
  glGetString :: "gl_string \<Rightarrow> string"
  createES3Renderer :: "env \<Rightarrow> renderer option \<times> env"
  createES2Renderer :: "env \<Rightarrow> renderer option \<times> env"

text \<open>
  The process-wide state: the pointer \<^verbatim>\<open>g_renderer\<close> (\<open>None\<close> is \<^verbatim>\<open>NULL\<close>), the
  environment, and the renderer objects that were passed to \<^verbatim>\<open>delete\<close>.
\<close>

record world =
  g_renderer :: "renderer option"
  environ :: env
  freed :: "renderer list"

text \<open>
  \<^verbatim>\<open>strstr(haystack, needle)\<close>: the suffix of the haystack that starts at the first
  occurrence of the needle, or \<open>None\<close> for \<^verbatim>\<open>NULL\<close>.
\<close>

fun strstr :: "string \<Rightarrow> string \<Rightarrow> string option" where
  "strstr [] needle = (if needle = [] then Some [] else None)"
| "strstr (c # cs) needle = (if prefix needle (c # cs) then Some (c # cs) else strstr cs needle)"

text \<open>\<^verbatim>\<open>static void printGlString(const char *name, GLenum s)\<close>, lines 119 to 122.\<close>

definition printGlString :: "platform \<Rightarrow> string \<Rightarrow> gl_string \<Rightarrow> env \<Rightarrow> env" where
  "printGlString pf name s e =
     log_print (ALOGV ''GL %s: %s\<newline>'' [Str name, Str (glGetString pf s)]) e"

text \<open>
  \<^verbatim>\<open>gl3stubInit\<close>, lines 244 to 250: the definition that the file itself gives, for a
  build without \<^verbatim>\<open>DYNAMIC_ES3\<close>.
\<close>

definition gl3stubInit :: bool where
  "gl3stubInit = True"

text \<open>\<^verbatim>\<open>Java_com_android_gles3jni_GLES3JNILib_init\<close>, lines 252 to 272.\<close>

definition Java_com_android_gles3jni_GLES3JNILib_init :: "platform \<Rightarrow> world \<Rightarrow> world" where
  "Java_com_android_gles3jni_GLES3JNILib_init pf w =
     (let w1 = (case g_renderer w of
                  Some r \<Rightarrow> w\<lparr>freed := freed w @ [r], g_renderer := None\<rparr>
                | None \<Rightarrow> w);
          e1 = printGlString pf ''Version'' GL_VERSION (environ w1);
          e2 = printGlString pf ''Vendor'' GL_VENDOR e1;
          e3 = printGlString pf ''Renderer'' GL_RENDERER e2;
          e4 = printGlString pf ''Extensions'' GL_EXTENSIONS e3;
          versionStr = glGetString pf GL_VERSION
      in if strstr versionStr ''OpenGL ES 3.'' \<noteq> None \<and> gl3stubInit
         then w1\<lparr>g_renderer := fst (createES3Renderer pf e4), environ := snd (createES3Renderer pf e4)\<rparr>
         else if strstr versionStr ''OpenGL ES 2.'' \<noteq> None
         then w1\<lparr>g_renderer := fst (createES2Renderer pf e4), environ := snd (createES2Renderer pf e4)\<rparr>
         else w1\<lparr>environ := log_print (ALOGE ''Unsupported OpenGL ES version'' []) e4\<rparr>)"

text \<open>\<^verbatim>\<open>Java_com_android_gles3jni_GLES3JNILib_resize\<close>, lines 274 to 279.\<close>

definition Java_com_android_gles3jni_GLES3JNILib_resize ::
  "fpu \<Rightarrow> header_consts \<Rightarrow> (nat \<Rightarrow> real) \<Rightarrow> (nat \<Rightarrow> nat \<Rightarrow> real) \<Rightarrow> 32 word \<Rightarrow> 32 word \<Rightarrow>
   world \<Rightarrow> world" where
  "Java_com_android_gles3jni_GLES3JNILib_resize fp c drand48 junk width height w =
     (case g_renderer w of
        Some r \<Rightarrow>
          (case resize fp c drand48 junk width height (r, environ w) of
             (r', e') \<Rightarrow> w\<lparr>g_renderer := Some r', environ := e'\<rparr>)
      | None \<Rightarrow> w)"

text \<open>\<^verbatim>\<open>Java_com_android_gles3jni_GLES3JNILib_step\<close>, lines 281 to 286.\<close>

definition Java_com_android_gles3jni_GLES3JNILib_step ::
  "fpu \<Rightarrow> header_consts \<Rightarrow> timespec \<Rightarrow> world \<Rightarrow> world" where
  "Java_com_android_gles3jni_GLES3JNILib_step fp c now w =
     (case g_renderer w of
        Some r \<Rightarrow>
          (case render fp c now (r, environ w) of
             (r', e') \<Rightarrow> w\<lparr>g_renderer := Some r', environ := e'\<rparr>)
      | None \<Rightarrow> w)"

subsection \<open>Notions used in the statements\<close>

text \<open>
  One axis of one instance in the loop body of \<^verbatim>\<open>step\<close>, from the old position \<open>x\<close>, the
  old velocity \<open>v\<close> and the frame time \<open>dt\<close>: the position stored by the addition, the
  position stored by the subtraction of the bounce branch, and with them the new position
  and the new velocity.
\<close>

definition moved :: "fpu \<Rightarrow> real \<Rightarrow> real \<Rightarrow> real \<Rightarrow> real" where
  "moved fp x v dt = f32 fp (f64 fp (x + f64 fp (f32 fp (v * dt) * f64 fp 0.1)))"

definition bounced :: "fpu \<Rightarrow> real \<Rightarrow> real \<Rightarrow> real \<Rightarrow> real" where
  "bounced fp x1 v dt = f32 fp (f64 fp (x1 - f64 fp (f32 fp (f32 fp (f32 fp 2 * v) * dt) * f64 fp 0.1)))"

definition bounce_pos :: "fpu \<Rightarrow> real \<Rightarrow> real \<Rightarrow> real \<Rightarrow> real" where
  "bounce_pos fp x v dt =
     (if moved fp x v dt > 1.0 \<or> moved fp x v dt < - 1.0
      then bounced fp (moved fp x v dt) v dt
      else moved fp x v dt)"

definition bounce_vel :: "fpu \<Rightarrow> real \<Rightarrow> real \<Rightarrow> real \<Rightarrow> real" where
  "bounce_vel fp x v dt =
     (if moved fp x v dt > 1.0 \<or> moved fp x v dt < - 1.0 then - v else v)"

text \<open>The three simulation arrays have the size that \<^verbatim>\<open>calcSceneParams\<close> allocates.\<close>

definition allocated :: "header_consts \<Rightarrow> renderer \<Rightarrow> bool" where
  "allocated c r \<longleftrightarrow>
     length (localOffset r) = 2 * MAX_INSTANCES_ITEM c \<and>
     length (mVx r) = 2 * MAX_INSTANCES_ITEM c \<and>
     length (mVy r) = 2 * MAX_INSTANCES_ITEM c"

text \<open>
  Every position component is in \<open>[-1, 1]\<close>, every velocity component is in \<open>[-5, 5]\<close> and is
  a \<^verbatim>\<open>float\<close>: converting it to \<^verbatim>\<open>float\<close> again does not change it.
\<close>

definition in_box :: "fpu \<Rightarrow> renderer \<Rightarrow> bool" where
  "in_box fp r \<longleftrightarrow>
     length (mVx r) = length (localOffset r) \<and>
     length (mVy r) = length (localOffset r) \<and>
     list_all (\<lambda>x. - 1 \<le> x \<and> x \<le> 1) (localOffset r) \<and>
     list_all (\<lambda>v. \<bar>v\<bar> \<le> 5 \<and> f32 fp v = v) (mVx r) \<and>
     list_all (\<lambda>v. \<bar>v\<bar> \<le> 5 \<and> f32 fp v = v) (mVy r)"

text \<open>
  In a run of \<^verbatim>\<open>step()\<close> calls, every call that moves the instances (the time stamp of
  the previous frame is not 0) computes a frame time of at most \<open>B\<close> seconds.
\<close>

fun frames_within :: "real \<Rightarrow> fpu \<Rightarrow> header_consts \<Rightarrow> timespec list \<Rightarrow> renderer \<times> env \<Rightarrow> bool" where
  "frames_within B fp c [] re = True"
| "frames_within B fp c (now # ts) re =
     ((mLastFrameNs (fst re) = 0 \<or> frame_dt fp (fst re) now \<le> B) \<and>
      frames_within B fp c ts (step fp c now re))"

text \<open>
  The shader object that \<^verbatim>\<open>createShader\<close> holds after \<^verbatim>\<open>glShaderSource\<close> and
  \<^verbatim>\<open>glCompileShader\<close>, and the log lines its failure branch emits: one line when the
  driver's info log is not empty and the buffer for it could be allocated, none otherwise.
\<close>

definition compiled_shader :: "gl_driver \<Rightarrow> shader_type \<Rightarrow> string \<Rightarrow> shader_obj" where
  "compiled_shader d t src =
     \<lparr>stype = t, source = src, compiled = fst (compileResult d t src),
      shaderInfoLog = snd (compileResult d t src), deleteFlag = False\<rparr>"

definition compile_log :: "gl_driver \<Rightarrow> shader_type \<Rightarrow> string \<Rightarrow> log_entry list" where
  "compile_log d t src =
     (if snd (compileResult d t src) \<noteq> [] \<and> mallocOk d (length (snd (compileResult d t src)) + 1)
      then [ALOGE ''Could not compile %s shader:\<newline>%s\<newline>''
              [Str (if t = GL_VERTEX_SHADER then ''vertex'' else ''fragment''),
               Str (snd (compileResult d t src))]]
      else [])"

text \<open>
  The driver names are fresh: a create call returns 0 or a name that no object of the
  table has.
\<close>

definition fresh_names :: "gl_driver \<Rightarrow> bool" where
  "fresh_names d \<longleftrightarrow>
     (\<forall>e t. newShaderName d e t = 0 \<or> map_of (shaders e) (newShaderName d e t) = None) \<and>
     (\<forall>e. newProgramName d e = 0 \<or> map_of (programs e) (newProgramName d e) = None)"

text \<open>Every shader name attached to a program of the table names a shader object.\<close>

definition attachments_live :: "env \<Rightarrow> bool" where
  "attachments_live e \<longleftrightarrow>
     list_all (\<lambda>po. list_all (\<lambda>n. map_of (shaders e) n \<noteq> None) (attached (snd po))) (programs e)"

subsection \<open>Concrete inputs\<close>

text \<open>
  \<^verbatim>\<open>Renderer::Renderer()\<close>, lines 126 to 132, for angle arrays of \<open>maxInstances\<close> elements
  and an offset buffer of \<open>bufLen\<close> elements. The constructor leaves the three array
  pointers and \<^verbatim>\<open>offsetRatio\<close> uninitialised: here empty arrays and 0.
\<close>

definition Renderer_ctor :: "nat \<Rightarrow> nat \<Rightarrow> renderer" where
  "Renderer_ctor maxInstances bufLen =
     \<lparr>mNumInstances = 0, mScale = (Fin 0, Fin 0), mAngularVelocity = replicate maxInstances 0,
      mLastFrameNs = 0, mAngles = replicate maxInstances 0,
      localOffset = [], mVx = [], mVy = [], offsetRatio = 0,
      offsetBuf = replicate bufLen 0\<rparr>"

definition no_env :: env where
  "no_env = \<lparr>shaders = [], programs = [], glError = GL_NO_ERROR, logcat = [], commands = []\<rparr>"

definition no_renderer :: world where
  "no_renderer = \<lparr>g_renderer = None, environ = no_env, freed = []\<rparr>"

definition one_quad :: header_consts where
  "one_quad = \<lparr>MAX_INSTANCES_ITEM = 1, TWO_PI = 2 * pi, MAX_ROT_SPEED = 0.3 * (2 * pi)\<rparr>"

definition two_quads :: header_consts where
  "two_quads = \<lparr>MAX_INSTANCES_ITEM = 2, TWO_PI = 2 * pi, MAX_ROT_SPEED = 0.3 * (2 * pi)\<rparr>"

definition at_time :: "int \<Rightarrow> int \<Rightarrow> timespec" where
  "at_time s ns = \<lparr>tv_sec = s, tv_nsec = ns\<rparr>"

text \<open>
  A scene of one quad after \<^verbatim>\<open>resize(1080, 1920)\<close>, every \<^verbatim>\<open>drand48()\<close> returning
  \<open>3/4\<close> and the new arrays holding 99 everywhere: both position components become \<open>1/2\<close>,
  both velocity components \<open>5/2\<close>, in exact arithmetic and in binary32 alike.
\<close>

definition demo_scene :: "fpu \<Rightarrow> renderer \<times> env" where
  "demo_scene fp = resize fp one_quad (\<lambda>k. 3 / 4) (\<lambda>k j. 99) 1080 1920 (Renderer_ctor 1 2, no_env)"

text \<open>
  A sequence of \<^verbatim>\<open>drand48()\<close> values in \<open>[0, 1)\<close>, multiples of \<open>1/10\<close> (most of them not
  binary fractions), and array contents that are far outside every range of the scene.
\<close>

definition tenths :: "nat \<Rightarrow> real" where
  "tenths k = real ((3 * k + 1) mod 10) / 10"

definition stale :: "nat \<Rightarrow> nat \<Rightarrow> real" where
  "stale k j = 99 + real k + real j"

text \<open>
  A driver for the examples. It names a new object after the size of its table (0, that
  is failure, when the name could be taken or the table holds 1000 objects), accepts
  exactly the shader sources that start with \<^verbatim>\<open>#version\<close>, and links exactly two compiled
  shaders whose sources agree on their first 15 characters, the version line. \<open>quiet\<close>
  says whether it leaves its info logs empty.
\<close>

definition next_name :: "(GLuint \<times> 'a) list \<Rightarrow> GLuint" where
  "next_name tab = (if length tab < 1000 \<and> list_all (\<lambda>p. unat (fst p) \<le> length tab) tab
                    then of_nat (length tab) + 1 else 0)"

definition demo_driver :: "bool \<Rightarrow> gl_driver" where
  "demo_driver quiet =
     \<lparr>newShaderName = (\<lambda>e t. next_name (shaders e)),
      compileResult = (\<lambda>t src. if prefix ''#version'' src then (True, [])
                               else (False, if quiet then [] else ''syntax error'')),
      newProgramName = (\<lambda>e. next_name (programs e)),
      linkResult = (\<lambda>ss. case ss of
                            [Some a, Some b] \<Rightarrow>
                              if compiled a \<and> compiled b \<and> take 15 (source a) = take 15 (source b)
                              then (True, [])
                              else (False, if quiet then [] else ''version mismatch'')
                          | _ \<Rightarrow> (False, if quiet then [] else ''link error'')),
      createError = 0x0505,
      mallocOk = (\<lambda>n. True)\<rparr>"

section \<open>Properties\<close>

subsection \<open>Rounding to nearest, ties to even\<close>

lemma round_even_of_int [simp]: "round_even (of_int n) = n"
  by (simp add: round_even_def)

lemma round_even_0 [simp]: "round_even 0 = 0"
  using round_even_of_int [of 0] by simp

lemma round_even_bounds: "\<lfloor>y\<rfloor> \<le> round_even y \<and> round_even y \<le> \<lfloor>y\<rfloor> + 1"
  by (simp add: round_even_def)

lemma round_even_error: "\<bar>of_int (round_even y) - y\<bar> \<le> 1 / 2"
proof -
  have "of_int \<lfloor>y\<rfloor> \<le> y" "y < of_int \<lfloor>y\<rfloor> + 1"
    by linarith+
  then show ?thesis
    by (auto simp: round_even_def)
qed

lemma round_even_mono: "x \<le> y \<Longrightarrow> round_even x \<le> round_even y"
proof -
  assume xy: "x \<le> y"
  then have fl: "\<lfloor>x\<rfloor> \<le> \<lfloor>y\<rfloor>" by (rule floor_mono)
  show ?thesis
  proof (cases "\<lfloor>x\<rfloor> = \<lfloor>y\<rfloor>")
    case True
    with xy show ?thesis
      by (auto simp: round_even_def)
  next
    case False
    with fl have "\<lfloor>x\<rfloor> + 1 \<le> \<lfloor>y\<rfloor>" by simp
    with round_even_bounds [of x] round_even_bounds [of y] show ?thesis by linarith
  qed
qed

lemma round_even_minus: "round_even (- y) = - round_even y"
proof (cases "y = of_int \<lfloor>y\<rfloor>")
  case True
  then obtain n where "y = of_int n" ..
  then have "- y = of_int (- n)" by simp
  then show ?thesis
    using \<open>y = of_int n\<close> by (simp only: round_even_of_int)
next
  case False
  then have fl: "\<lfloor>- y\<rfloor> = - \<lfloor>y\<rfloor> - 1"
    by (simp add: floor_minus ceiling_altdef)
  show ?thesis
    using False
    by (auto simp: round_even_def fl)
qed

lemma round_even_nonneg: "0 \<le> y \<Longrightarrow> 0 \<le> round_even y"
  using round_even_mono [of 0 y] by simp

lemma two_powi_mono: "a \<le> b \<Longrightarrow> (2::real) powi a \<le> 2 powi b"
  by (rule power_int_increasing) simp_all

lemma two_powi_strict_mono: "a < b \<Longrightarrow> (2::real) powi a < 2 powi b"
  by (rule power_int_strict_increasing) simp_all

lemma two_powi_less_cancel: "(2::real) powi a < 2 powi b \<Longrightarrow> a < b"
  using two_powi_mono [of b a] by (cases "a < b") auto

lemma two_powi_pos [simp]: "0 < (2::real) powi a"
  by (rule zero_less_power_int) simp

lemma binade_ge: "e \<le> binade n e x"
proof (induction n arbitrary: e)
  case 0
  show ?case by simp
next
  case (Suc n)
  from Suc [of "e + 1"] show ?case by auto
qed

lemma binade_le: "binade n e x \<le> e + int n"
proof (induction n arbitrary: e)
  case 0
  show ?case by simp
next
  case (Suc n)
  from Suc [of "e + 1"] show ?case by auto
qed

lemma binade_upper: "x < 2 powi (e + int n + 1) \<Longrightarrow> x < 2 powi (binade n e x + 1)"
proof (induction n arbitrary: e)
  case 0
  then show ?case by simp
next
  case (Suc n)
  from Suc.prems have "x < 2 powi (e + 1 + int n + 1)"
    by (simp add: add.commute add.left_commute)
  from Suc.IH [OF this] show ?case by auto
qed

lemma binade_upper_unless_capped:
  "binade n e x < e + int n \<Longrightarrow> x < 2 powi (binade n e x + 1)"
proof (induction n arbitrary: e)
  case 0
  then show ?case by simp
next
  case (Suc n)
  show ?case
  proof (cases "2 powi (e + 1) \<le> x")
    case True
    with Suc.prems have "binade n (e + 1) x < e + 1 + int n" by simp
    from Suc.IH [OF this] True show ?thesis by simp
  next
    case False
    then show ?thesis by simp
  qed
qed

lemma binade_lower: "e < binade n e x \<Longrightarrow> 2 powi (binade n e x) \<le> x"
proof (induction n arbitrary: e)
  case 0
  then show ?case by simp
next
  case (Suc n)
  show ?case
  proof (cases "2 powi (e + 1) \<le> x")
    case True
    show ?thesis
    proof (cases "e + 1 < binade n (e + 1) x")
      case True
      from Suc.IH [OF this] \<open>2 powi (e + 1) \<le> x\<close> show ?thesis by simp
    next
      case False
      with binade_ge [of "e + 1" n x] have "binade n (e + 1) x = e + 1" by simp
      with True show ?thesis by simp
    qed
  next
    case False
    with Suc.prems show ?thesis by simp
  qed
qed

lemma binade_eqI:
  assumes "e \<le> k" "k \<le> e + int n" "k = e \<or> 2 powi k \<le> x" "x < 2 powi (k + 1)"
  shows "binade n e x = k"
  using assms
proof (induction n arbitrary: e)
  case 0
  then show ?case by simp
next
  case (Suc n)
  show ?case
  proof (cases "2 powi (e + 1) \<le> x")
    case True
    with Suc.prems(4) have "(2::real) powi (e + 1) < 2 powi (k + 1)" by simp
    then have "e < k" using two_powi_less_cancel [of "e + 1" "k + 1"] by simp
    with Suc.prems have "binade n (e + 1) x = k"
      by (intro Suc.IH) auto
    with True show ?thesis by simp
  next
    case False
    have "k = e"
    proof (rule ccontr)
      assume "k \<noteq> e"
      with Suc.prems have "e + 1 \<le> k" "2 powi k \<le> x" by auto
      with two_powi_mono [of "e + 1" k] False show False by simp
    qed
    with False show ?thesis by simp
  qed
qed

lemma binade_mono: "x \<le> y \<Longrightarrow> binade n e x \<le> binade n e y"
proof (induction n arbitrary: e)
  case 0
  show ?case by simp
next
  case (Suc n)
  from Suc.IH [OF Suc.prems, of "e + 1"] binade_ge [of "e + 1" n y] Suc.prems
  show ?case by auto
qed

lemma expo_minus [simp]: "expo f (- x) = expo f x"
  by (simp add: expo_def)

lemma expo_bounds: "emin f \<le> emax f \<Longrightarrow> emin f \<le> expo f x \<and> expo f x \<le> emax f"
  using binade_ge [of "emin f" "nat (emax f - emin f)" "\<bar>x\<bar>"]
    binade_le [of "nat (emax f - emin f)" "emin f" "\<bar>x\<bar>"]
  by (simp add: expo_def)

lemma expo_ge: "emin f \<le> expo f x"
  unfolding expo_def by (rule binade_ge)

lemma expo_lower: "emin f < expo f x \<Longrightarrow> 2 powi (expo f x) \<le> \<bar>x\<bar>"
  unfolding expo_def by (rule binade_lower)

lemma expo_upper: "emin f \<le> emax f \<Longrightarrow> expo f x < emax f \<Longrightarrow> \<bar>x\<bar> < 2 powi (expo f x + 1)"
  unfolding expo_def by (rule binade_upper_unless_capped) simp

lemma expo_upper_in_range:
  "emin f \<le> emax f \<Longrightarrow> \<bar>x\<bar> < 2 powi (emax f + 1) \<Longrightarrow> \<bar>x\<bar> < 2 powi (expo f x + 1)"
  unfolding expo_def by (rule binade_upper) simp

lemma expo_eqI:
  assumes "emin f \<le> k" "k \<le> emax f" "k = emin f \<or> 2 powi k \<le> \<bar>x\<bar>" "\<bar>x\<bar> < 2 powi (k + 1)"
  shows "expo f x = k"
  unfolding expo_def using assms by (intro binade_eqI) auto

lemma expo_mono: "\<bar>x\<bar> \<le> \<bar>y\<bar> \<Longrightarrow> expo f x \<le> expo f y"
  unfolding expo_def by (rule binade_mono)

lemma expo_le:
  assumes "emin f \<le> k" "\<bar>x\<bar> < 2 powi (k + 1)"
  shows "expo f x \<le> k"
proof (rule ccontr)
  assume "\<not> expo f x \<le> k"
  then have less: "k + 1 \<le> expo f x" by simp
  with assms(1) have "emin f < expo f x" by simp
  then have "2 powi (expo f x) \<le> \<bar>x\<bar>" by (rule expo_lower)
  moreover from less have "(2::real) powi (k + 1) \<le> 2 powi (expo f x)" by (rule two_powi_mono)
  ultimately show False using assms(2) by simp
qed

lemma quantum_pos [simp]: "0 < quantum f x"
  by (simp add: quantum_def)

lemma quantum_nonneg [simp]: "0 \<le> quantum f x"
  by (simp add: quantum_def)

lemma quantum_neq0 [simp]: "quantum f x \<noteq> 0"
  by (simp add: quantum_def)

lemma quantum_minus [simp]: "quantum f (- x) = quantum f x"
  by (simp add: quantum_def)

lemma rne_0 [simp]: "rne f 0 = 0"
  by (simp add: rne_def)

lemma rne_minus: "rne f (- x) = - rne f x"
  by (simp add: rne_def round_even_minus)

lemma rne_nonneg: "0 \<le> x \<Longrightarrow> 0 \<le> rne f x"
  by (simp add: rne_def round_even_nonneg)

text \<open>Rounding at a known binade.\<close>

lemma rne_at:
  assumes "emin f \<le> k" "k \<le> emax f" "k = emin f \<or> 2 powi k \<le> \<bar>x\<bar>" "\<bar>x\<bar> < 2 powi (k + 1)"
  shows "rne f x = of_int (round_even (x / 2 powi (k - (int (prec f) - 1)))) * 2 powi (k - (int (prec f) - 1))"
  by (simp add: rne_def quantum_def expo_eqI [OF assms])

lemma rne_le_top_of_binade:
  assumes "1 \<le> prec f" "0 \<le> x" "x \<le> 2 powi (expo f x + 1)"
  shows "rne f x \<le> 2 powi (expo f x + 1)"
proof -
  let ?q = "quantum f x"
  have q: "?q = 2 powi (expo f x - (int (prec f) - 1))" by (rule quantum_def)
  have "2 powi (expo f x + 1) / ?q = (2::real) powi int (prec f)"
    by (simp add: q power_int_diff [symmetric])
  also have "\<dots> = of_int (2 ^ prec f)"
    by simp
  finally have top: "2 powi (expo f x + 1) / ?q = of_int (2 ^ prec f)" .
  have "x / ?q \<le> 2 powi (expo f x + 1) / ?q"
    using assms(3) by (rule divide_right_mono) simp
  then have "round_even (x / ?q) \<le> round_even (of_int (2 ^ prec f))"
    unfolding top by (rule round_even_mono)
  then have "round_even (x / ?q) \<le> 2 ^ prec f"
    by (simp only: round_even_of_int)
  then have "of_int (round_even (x / ?q)) * ?q \<le> of_int (2 ^ prec f) * ?q"
    by (intro mult_right_mono) (simp_all del: of_int_power)
  also have "of_int (2 ^ prec f) * ?q = 2 powi (expo f x + 1)"
    using top by (simp add: field_simps)
  finally show ?thesis by (simp add: rne_def)
qed

lemma rne_ge_bottom_of_binade:
  assumes "1 \<le> prec f" "2 powi (expo f x) \<le> x"
  shows "2 powi (expo f x) \<le> rne f x"
proof -
  let ?q = "quantum f x"
  have q: "?q = 2 powi (expo f x - (int (prec f) - 1))" by (rule quantum_def)
  have "2 powi (expo f x) / ?q = (2::real) powi (int (prec f) - 1)"
    by (simp add: q power_int_diff [symmetric])
  also have "int (prec f) - 1 = int (prec f - 1)"
    using assms(1) by simp
  also have "(2::real) powi int (prec f - 1) = of_int (2 ^ (prec f - 1))"
    by simp
  finally have bot: "2 powi (expo f x) / ?q = of_int (2 ^ (prec f - 1))" .
  have "2 powi (expo f x) / ?q \<le> x / ?q"
    using assms(2) by (rule divide_right_mono) simp
  then have "round_even (of_int (2 ^ (prec f - 1))) \<le> round_even (x / ?q)"
    unfolding bot by (rule round_even_mono)
  then have "2 ^ (prec f - 1) \<le> round_even (x / ?q)"
    by (simp only: round_even_of_int)
  then have le: "of_int (2 ^ (prec f - 1)) * ?q \<le> of_int (round_even (x / ?q)) * ?q"
    by (intro mult_right_mono) (simp_all del: of_int_power)
  have "2 powi (expo f x) = of_int (2 ^ (prec f - 1)) * ?q"
    using bot by (simp add: field_simps)
  also note le
  also have "of_int (round_even (x / ?q)) * ?q = rne f x"
    by (simp add: rne_def)
  finally show ?thesis .
qed

lemma rne_mono_nonneg:
  assumes f: "1 \<le> prec f" "emin f \<le> emax f" and xy: "0 \<le> x" "x \<le> y"
  shows "rne f x \<le> rne f y"
proof -
  have e: "expo f x \<le> expo f y"
    using xy by (intro expo_mono) simp
  show ?thesis
  proof (cases "expo f x = expo f y")
    case True
    then have "quantum f x = quantum f y" by (simp add: quantum_def)
    moreover have "round_even (x / quantum f y) \<le> round_even (y / quantum f y)"
      using xy by (intro round_even_mono divide_right_mono) simp_all
    ultimately show ?thesis
      by (simp add: rne_def mult_right_mono)
  next
    case False
    with e have less: "expo f x < expo f y" by simp
    with expo_bounds [OF f(2), of y] have "expo f x < emax f" by simp
    from expo_upper [OF f(2) this] xy have "x \<le> 2 powi (expo f x + 1)" by simp
    from rne_le_top_of_binade [OF f(1) xy(1) this]
    have "rne f x \<le> 2 powi (expo f x + 1)" .
    also from less have "(2::real) powi (expo f x + 1) \<le> 2 powi (expo f y)"
      by (intro two_powi_mono) simp
    also have "\<dots> \<le> rne f y"
    proof (rule rne_ge_bottom_of_binade [OF f(1)])
      from less expo_bounds [OF f(2), of x] have "emin f < expo f y" by simp
      from expo_lower [OF this] xy show "2 powi expo f y \<le> y" by simp
    qed
    finally show ?thesis .
  qed
qed

text \<open>Rounding is monotone.\<close>

lemma rne_mono:
  assumes f: "1 \<le> prec f" "emin f \<le> emax f" and xy: "x \<le> y"
  shows "rne f x \<le> rne f y"
proof -
  consider "0 \<le> x" | "x < 0" "0 \<le> y" | "y < 0" using xy by linarith
  then show ?thesis
  proof cases
    case 1
    with f xy show ?thesis by (intro rne_mono_nonneg)
  next
    case 2
    then have "0 \<le> rne f (- x)" "0 \<le> rne f y"
      by (simp_all add: rne_nonneg)
    then show ?thesis by (simp add: rne_minus)
  next
    case 3
    with xy have "0 \<le> - y" "- y \<le> - x" by simp_all
    from rne_mono_nonneg [OF f this] show ?thesis
      by (simp add: rne_minus)
  qed
qed

text \<open>A number that is a multiple of its quantum is a number of the format: rounding leaves it alone.\<close>

lemma rne_exact: "x = of_int m * quantum f x \<Longrightarrow> rne f x = x"
proof -
  assume x: "x = of_int m * quantum f x"
  define q where "q = quantum f x"
  have "0 < q" by (simp add: q_def)
  from x have "x = of_int m * q" by (simp add: q_def)
  with \<open>0 < q\<close> have "x / q = of_int m" by simp
  then have "of_int (round_even (x / q)) * q = x"
    using \<open>x = of_int m * q\<close> by simp
  then show ?thesis
    by (simp add: rne_def q_def)
qed

lemma multiple_of_smaller_power:
  assumes "a \<le> b"
  shows "\<exists>n. of_int m * (2::real) powi b = of_int n * 2 powi a"
proof -
  have "(2::real) powi b = 2 powi ((b - a) + a)"
    by simp
  also have "\<dots> = 2 powi (b - a) * 2 powi a"
    by (rule power_int_add) simp
  also have "(2::real) powi (b - a) = 2 ^ nat (b - a)"
    using assms by (simp add: power_int_def)
  finally have "of_int m * (2::real) powi b = of_int (m * 2 ^ nat (b - a)) * 2 powi a"
    by simp
  then show ?thesis ..
qed

text \<open>
  A significand of at most \<open>prec\<close> bits with an exponent that is not below the subnormal
  quantum gives a number of the format.
\<close>

lemma rne_representable:
  assumes x: "x = of_int m * 2 powi e"
    and m: "\<bar>m\<bar> < 2 ^ prec f"
    and e: "emin f - (int (prec f) - 1) \<le> e"
  shows "rne f x = x"
proof -
  let ?k = "e + (int (prec f) - 1)"
  have top: "(2::real) powi (?k + 1) = 2 ^ prec f * 2 powi e"
  proof -
    have "(2::real) powi (?k + 1) = 2 powi (int (prec f) + e)"
      by (simp add: add.commute)
    also have "\<dots> = 2 powi int (prec f) * 2 powi e"
      by (rule power_int_add) simp
    finally show ?thesis by simp
  qed
  have "\<bar>x\<bar> = of_int \<bar>m\<bar> * 2 powi e"
    by (simp add: x abs_mult)
  also have "\<dots> < of_int (2 ^ prec f) * 2 powi e"
    using m by (intro mult_strict_right_mono) (simp_all del: of_int_power)
  also have "\<dots> = 2 powi (?k + 1)"
    by (simp only: top) simp
  finally have "\<bar>x\<bar> < 2 powi (?k + 1)" .
  moreover from e have "emin f \<le> ?k" by simp
  ultimately have "expo f x \<le> ?k" by (intro expo_le)
  then have "expo f x - (int (prec f) - 1) \<le> e" by simp
  from multiple_of_smaller_power [OF this, of m]
  obtain n where "x = of_int n * quantum f x"
    by (auto simp: x quantum_def)
  then show ?thesis by (rule rne_exact)
qed

text \<open>The error of a rounding is at most half a quantum.\<close>

lemma rne_error:
  "\<bar>rne f x - x\<bar> \<le> quantum f x / 2"
proof -
  let ?q = "quantum f x"
  have "\<bar>of_int (round_even (x / ?q)) - x / ?q\<bar> \<le> 1 / 2"
    by (rule round_even_error)
  then have "\<bar>of_int (round_even (x / ?q)) - x / ?q\<bar> * ?q \<le> 1 / 2 * ?q"
    by (intro mult_right_mono) simp_all
  moreover have "\<bar>of_int (round_even (x / ?q)) - x / ?q\<bar> * ?q = \<bar>rne f x - x\<bar>"
  proof -
    have "\<bar>of_int (round_even (x / ?q)) - x / ?q\<bar> * ?q = \<bar>(of_int (round_even (x / ?q)) - x / ?q) * ?q\<bar>"
      by (simp add: abs_mult)
    also have "(of_int (round_even (x / ?q)) - x / ?q) * ?q = rne f x - x"
      by (simp add: rne_def field_simps)
    finally show ?thesis .
  qed
  ultimately show ?thesis by simp
qed

text \<open>In the normal range the error is at most \<open>2 powi (- prec)\<close> times the number.\<close>

lemma rne_relative_error:
  assumes "2 powi (emin f) \<le> \<bar>x\<bar>"
  shows "\<bar>rne f x - x\<bar> \<le> 2 powi (- int (prec f)) * \<bar>x\<bar>"
proof -
  have low: "2 powi (expo f x) \<le> \<bar>x\<bar>"
  proof (cases "emin f < expo f x")
    case True
    then show ?thesis by (rule expo_lower)
  next
    case False
    with expo_ge [of f x] have "expo f x = emin f"
      by simp
    with assms show ?thesis by simp
  qed
  have "expo f x - (int (prec f) - 1) = (expo f x - int (prec f)) + 1"
    by simp
  then have "quantum f x = 2 powi (expo f x - int (prec f)) * 2"
    by (simp only: quantum_def) (simp add: power_int_add_1)
  also have "(2::real) powi (expo f x - int (prec f)) = 2 powi (- int (prec f)) * 2 powi (expo f x)"
    by (simp add: power_int_add [symmetric])
  finally have "quantum f x / 2 = 2 powi (- int (prec f)) * 2 powi (expo f x)"
    by simp
  also have "\<dots> \<le> 2 powi (- int (prec f)) * \<bar>x\<bar>"
    using low by (intro mult_left_mono) simp_all
  finally show ?thesis
    using rne_error [of f x] by linarith
qed

text \<open>Doubling commutes with rounding in the normal range.\<close>

lemma expo_normal:
  assumes "2 powi (emin f) \<le> \<bar>x\<bar>"
  shows "2 powi (expo f x) \<le> \<bar>x\<bar>"
proof (cases "emin f < expo f x")
  case True
  then show ?thesis by (rule expo_lower)
next
  case False
  with expo_ge [of f x] have "expo f x = emin f" by simp
  with assms show ?thesis by simp
qed

lemma rne_double:
  assumes low: "2 powi (emin f) \<le> \<bar>y\<bar>" and high: "\<bar>y\<bar> < 2 powi (emax f)"
  shows "rne f (2 * y) = 2 * rne f y"
proof -
  let ?k = "expo f y"
  from low high have "(2::real) powi (emin f) < 2 powi (emax f)" by simp
  then have mm: "emin f < emax f" by (rule two_powi_less_cancel)
  have "emin f \<le> emax f - 1" using mm by simp
  moreover have "\<bar>y\<bar> < 2 powi (emax f - 1 + 1)" using high by simp
  ultimately have "?k \<le> emax f - 1" by (rule expo_le)
  then have k: "?k < emax f" by simp
  from mm have "emin f \<le> emax f" by simp
  from expo_upper [OF this k] have up: "\<bar>y\<bar> < 2 powi (?k + 1)" .
  have lo: "2 powi ?k \<le> \<bar>y\<bar>" using low by (rule expo_normal)
  have "expo f (2 * y) = ?k + 1"
  proof (rule expo_eqI)
    show "emin f \<le> ?k + 1" using expo_ge [of f y] by simp
    show "?k + 1 \<le> emax f" using k by simp
    have "(2::real) powi (?k + 1) = 2 powi ?k * 2" by (rule power_int_add_1) simp
    also have "\<dots> \<le> \<bar>2 * y\<bar>" using lo by (simp add: abs_mult)
    finally show "?k + 1 = emin f \<or> 2 powi (?k + 1) \<le> \<bar>2 * y\<bar>" by simp
    have "\<bar>2 * y\<bar> < 2 powi (?k + 1) * 2" using up by (simp add: abs_mult)
    also have "\<dots> = 2 powi (?k + 1 + 1)" by (rule power_int_add_1 [symmetric]) simp
    finally show "\<bar>2 * y\<bar> < 2 powi (?k + 1 + 1)" .
  qed
  then have "quantum f (2 * y) = 2 powi ((?k - (int (prec f) - 1)) + 1)"
    by (simp add: quantum_def algebra_simps)
  also have "\<dots> = 2 powi (?k - (int (prec f) - 1)) * 2"
    by (rule power_int_add_1) simp
  also have "\<dots> = quantum f y * 2"
    by (simp only: quantum_def)
  finally have q: "quantum f (2 * y) = quantum f y * 2" .
  show ?thesis
    by (simp add: rne_def q)
qed

text \<open>Rounding twice is rounding once.\<close>

lemma rne_idem_nonneg:
  assumes f: "1 \<le> prec f" "emin f \<le> emax f" and y: "0 \<le> y"
  shows "rne f (rne f y) = rne f y"
proof -
  define z where "z = rne f y"
  let ?k = "expo f y"
  have z0: "0 \<le> z" unfolding z_def using y by (rule rne_nonneg)
  have zq: "z = of_int (round_even (y / quantum f y)) * 2 powi (?k - (int (prec f) - 1))"
    by (simp add: z_def rne_def quantum_def)
  show ?thesis
  proof (cases "expo f z \<le> ?k")
    case True
    then have "expo f z - (int (prec f) - 1) \<le> ?k - (int (prec f) - 1)" by simp
    from multiple_of_smaller_power [OF this, of "round_even (y / quantum f y)"]
    obtain n where n: "of_int (round_even (y / quantum f y)) * (2::real) powi (?k - (int (prec f) - 1)) =
                       of_int n * 2 powi (expo f z - (int (prec f) - 1))"
      by blast
    from zq n have "z = of_int n * 2 powi (expo f z - (int (prec f) - 1))" by (rule trans)
    then have "z = of_int n * quantum f z" by (simp only: quantum_def)
    then have "rne f z = z" by (rule rne_exact)
    then show ?thesis by (simp add: z_def)
  next
    case False
    then have less: "?k < expo f z" by simp
    with expo_bounds [OF f(2), of z] have k: "?k < emax f" by simp
    from expo_upper [OF f(2) k] y have "y \<le> 2 powi (?k + 1)" by simp
    from rne_le_top_of_binade [OF f(1) y this] have top: "z \<le> 2 powi (?k + 1)"
      by (simp add: z_def)
    from less expo_ge [of f y] have "emin f < expo f z" by simp
    from expo_lower [OF this] z0 have bot: "2 powi (expo f z) \<le> z" by simp
    from less have "(2::real) powi (?k + 1) \<le> 2 powi (expo f z)"
      by (intro two_powi_mono) simp
    with top bot have zval: "z = 2 powi (expo f z)" by simp
    have "expo f z = (expo f z - (int (prec f) - 1)) + int (prec f - 1)"
      using f(1) by simp
    then have "(2::real) powi (expo f z) =
               2 powi (expo f z - (int (prec f) - 1)) * 2 powi int (prec f - 1)"
      by (metis power_int_add zero_neq_numeral)
    also have "(2::real) powi int (prec f - 1) = of_int (2 ^ (prec f - 1))"
      by simp
    finally have "z = of_int (2 ^ (prec f - 1)) * quantum f z"
      using zval by (simp add: quantum_def mult.commute del: of_int_power)
    then have "rne f z = z" by (rule rne_exact)
    then show ?thesis by (simp add: z_def)
  qed
qed

lemma rne_idem:
  assumes f: "1 \<le> prec f" "emin f \<le> emax f"
  shows "rne f (rne f y) = rne f y"
proof (cases "0 \<le> y")
  case True
  with f show ?thesis by (rule rne_idem_nonneg)
next
  case False
  then have "0 \<le> - y" by simp
  from rne_idem_nonneg [OF f this] show ?thesis
    by (simp add: rne_minus)
qed

text \<open>The error of a rounding below a known power of two.\<close>

lemma rne_error_below:
  assumes "emin f \<le> k" "\<bar>y\<bar> < 2 powi (k + 1)"
  shows "\<bar>rne f y - y\<bar> \<le> 2 powi (k - int (prec f))"
proof -
  from assms have "expo f y \<le> k" by (rule expo_le)
  then have "quantum f y \<le> 2 powi (k - (int (prec f) - 1))"
    unfolding quantum_def by (intro two_powi_mono) simp
  also have "k - (int (prec f) - 1) = (k - int (prec f)) + 1" by simp
  also have "(2::real) powi ((k - int (prec f)) + 1) = 2 powi (k - int (prec f)) * 2"
    by (simp add: power_int_add_1)
  finally have "quantum f y / 2 \<le> 2 powi (k - int (prec f))" by simp
  with rne_error [of f y] show ?thesis by linarith
qed

text \<open>The two formats of the unit \<open>ieee\<close>.\<close>

lemma ieee_f32 [simp]: "f32 ieee = rne binary32"
  by (simp add: ieee_def)

lemma ieee_f64 [simp]: "f64 ieee = rne binary64"
  by (simp add: ieee_def)

lemma exact_f32 [simp]: "f32 exact x = x"
  by (simp add: exact_def)

lemma exact_f64 [simp]: "f64 exact x = x"
  by (simp add: exact_def)

lemma binary32_fields [simp]: "prec binary32 = 24" "emin binary32 = - 126" "emax binary32 = 127"
  by (simp_all add: binary32_def)

lemma binary64_fields [simp]: "prec binary64 = 53" "emin binary64 = - 1022" "emax binary64 = 1023"
  by (simp_all add: binary64_def)

lemma binary32_at:
  assumes "- 126 \<le> k" "k \<le> 127" "k = - 126 \<or> 2 powi k \<le> \<bar>x\<bar>" "\<bar>x\<bar> < 2 powi (k + 1)"
  shows "rne binary32 x = of_int (round_even (x / 2 powi (k - 23))) * 2 powi (k - 23)"
  using rne_at [of binary32 k x] assms by simp

lemma binary64_at:
  assumes "- 1022 \<le> k" "k \<le> 1023" "k = - 1022 \<or> 2 powi k \<le> \<bar>x\<bar>" "\<bar>x\<bar> < 2 powi (k + 1)"
  shows "rne binary64 x = of_int (round_even (x / 2 powi (k - 52))) * 2 powi (k - 52)"
  using rne_at [of binary64 k x] assms by simp

lemma binary32_float:
  assumes "x = of_int m * 2 powi e" "\<bar>m\<bar> < 16777216" "- 149 \<le> e"
  shows "rne binary32 x = x"
  using assms by (intro rne_representable [of x m e]) simp_all

lemma binary64_float:
  assumes "x = of_int m * 2 powi e" "\<bar>m\<bar> < 9007199254740992" "- 1074 \<le> e"
  shows "rne binary64 x = x"
  using assms by (intro rne_representable [of x m e]) simp_all

lemma binary32_mono: "x \<le> y \<Longrightarrow> rne binary32 x \<le> rne binary32 y"
  by (rule rne_mono) simp_all

lemma binary64_mono: "x \<le> y \<Longrightarrow> rne binary64 x \<le> rne binary64 y"
  by (rule rne_mono) simp_all

lemma binary32_double:
  assumes "1 / 2 ^ 100 \<le> \<bar>y\<bar>" "\<bar>y\<bar> \<le> 2 ^ 100"
  shows "rne binary32 (2 * y) = 2 * rne binary32 y"
proof (rule rne_double)
  have "(2::real) powi (- 126) \<le> 2 powi (- 100)" by (rule two_powi_mono) simp
  also have "\<dots> = 1 / 2 ^ 100" by simp
  finally show "2 powi (emin binary32) \<le> \<bar>y\<bar>" using assms(1) by (simp only: binary32_fields)
  have "(2::real) ^ 100 = 2 powi 100" by simp
  also have "\<dots> < 2 powi 127" by (rule two_powi_strict_mono) simp
  finally show "\<bar>y\<bar> < 2 powi (emax binary32)" using assms(2) by (simp only: binary32_fields)
qed

lemma binary64_double:
  assumes "1 / 2 ^ 100 \<le> \<bar>y\<bar>" "\<bar>y\<bar> \<le> 2 ^ 100"
  shows "rne binary64 (2 * y) = 2 * rne binary64 y"
proof (rule rne_double)
  have "(2::real) powi (- 1022) \<le> 2 powi (- 100)" by (rule two_powi_mono) simp
  also have "\<dots> = 1 / 2 ^ 100" by simp
  finally show "2 powi (emin binary64) \<le> \<bar>y\<bar>" using assms(1) by (simp only: binary64_fields)
  have "(2::real) ^ 100 = 2 powi 100" by simp
  also have "\<dots> < 2 powi 1023" by (rule two_powi_strict_mono) simp
  finally show "\<bar>y\<bar> < 2 powi (emax binary64)" using assms(2) by (simp only: binary64_fields)
qed

lemma binary32_idem: "rne binary32 (rne binary32 y) = rne binary32 y"
  by (rule rne_idem) simp_all

lemma rne_between:
  assumes "1 \<le> prec f" "emin f \<le> emax f" "rne f a = a" "rne f b = b" "a \<le> x" "x \<le> b"
  shows "a \<le> rne f x \<and> rne f x \<le> b"
  using rne_mono [OF assms(1,2,5)] rne_mono [OF assms(1,2,6)] assms(3,4) by simp

lemma binary32_between:
  "rne binary32 a = a \<Longrightarrow> rne binary32 b = b \<Longrightarrow> a \<le> x \<Longrightarrow> x \<le> b \<Longrightarrow>
   a \<le> rne binary32 x \<and> rne binary32 x \<le> b"
  by (rule rne_between) simp_all

lemma binary64_between:
  "rne binary64 a = a \<Longrightarrow> rne binary64 b = b \<Longrightarrow> a \<le> x \<Longrightarrow> x \<le> b \<Longrightarrow>
   a \<le> rne binary64 x \<and> rne binary64 x \<le> b"
  by (rule rne_between) simp_all

text \<open>Small numbers that both formats hold exactly.\<close>

lemma binary32_consts:
  "rne binary32 1 = 1" "rne binary32 2 = 2" "rne binary32 5 = 5" "rne binary32 10 = 10"
  "rne binary32 (1 / 2) = 1 / 2" "rne binary32 (5 / 2) = 5 / 2" "rne binary32 (1 / 4) = 1 / 4"
  using binary32_float [of 1 1 0] binary32_float [of 2 2 0] binary32_float [of 5 5 0]
    binary32_float [of 10 10 0] binary32_float [of "1 / 2" 1 "- 1"]
    binary32_float [of "5 / 2" 5 "- 1"] binary32_float [of "1 / 4" 1 "- 2"]
  by simp_all

lemma binary64_consts:
  "rne binary64 1 = 1" "rne binary64 2 = 2" "rne binary64 5 = 5" "rne binary64 10 = 10"
  "rne binary64 (1 / 2) = 1 / 2" "rne binary64 (5 / 2) = 5 / 2" "rne binary64 (1 / 4) = 1 / 4"
  using binary64_float [of 1 1 0] binary64_float [of 2 2 0] binary64_float [of 5 5 0]
    binary64_float [of 10 10 0] binary64_float [of "1 / 2" 1 "- 1"]
    binary64_float [of "5 / 2" 5 "- 1"] binary64_float [of "1 / 4" 1 "- 2"]
  by simp_all

text \<open>The literals of the file that are not binary fractions.\<close>

lemma binary32_tenth: "rne binary32 (1 / 10) = 13421773 / 134217728"
  using binary32_at [of "- 4" "1 / 10"] by (simp add: round_even_def)

lemma binary64_tenth: "rne binary64 (1 / 10) = 3602879701896397 / 36028797018963968"
  using binary64_at [of "- 4" "1 / 10"] by (simp add: round_even_def)

lemma binary32_nano: "rne binary32 (1 / 1000000000) = 9007199 / 9007199254740992"
  using binary32_at [of "- 30" "1 / 1000000000"] by (simp add: round_even_def)

subsection \<open>Scene set-up: calcSceneParams and resize\<close>

lemma calc_body_fields:
  "localOffset (calc_body fp d i r) =
     (localOffset r)[i := f32 fp (f64 fp (f64 fp (d (3 * i) - 0.5) * offsetRatio r))]"
  "mVx (calc_body fp d i r) = (mVx r)[i := f32 fp (f64 fp (f64 fp (d (3 * i + 1) - 0.5) * 10))]"
  "mVy (calc_body fp d i r) = (mVy r)[i := f32 fp (f64 fp (f64 fp (d (3 * i + 2) - 0.5) * 10))]"
  "offsetRatio (calc_body fp d i r) = offsetRatio r"
  "mNumInstances (calc_body fp d i r) = mNumInstances r"
  "mLastFrameNs (calc_body fp d i r) = mLastFrameNs r"
  by (simp_all add: calc_body_def Let_def)

lemma calc_loop_fields:
  "offsetRatio (calc_loop fp c d i r) = offsetRatio r \<and>
   mNumInstances (calc_loop fp c d i r) = mNumInstances r \<and>
   length (localOffset (calc_loop fp c d i r)) = length (localOffset r) \<and>
   length (mVx (calc_loop fp c d i r)) = length (mVx r) \<and>
   length (mVy (calc_loop fp c d i r)) = length (mVy r)"
proof (induction fp c d i r rule: calc_loop.induct)
  case (1 fp c d i r)
  show ?case
  proof (cases "i < MAX_INSTANCES_ITEM c * 2")
    case True
    with 1 show ?thesis
      by (simp add: calc_loop.simps [of fp c d i r] calc_body_fields)
  next
    case False
    then show ?thesis by (simp add: calc_loop.simps [of fp c d i r])
  qed
qed

lemma calc_loop_nth:
  "length (localOffset r) = MAX_INSTANCES_ITEM c * 2 \<Longrightarrow>
   length (mVx r) = MAX_INSTANCES_ITEM c * 2 \<Longrightarrow>
   length (mVy r) = MAX_INSTANCES_ITEM c * 2 \<Longrightarrow>
   j < MAX_INSTANCES_ITEM c * 2 \<Longrightarrow>
   localOffset (calc_loop fp c d i r) ! j =
     (if j < i then localOffset r ! j else f32 fp (f64 fp (f64 fp (d (3 * j) - 0.5) * offsetRatio r))) \<and>
   mVx (calc_loop fp c d i r) ! j =
     (if j < i then mVx r ! j else f32 fp (f64 fp (f64 fp (d (3 * j + 1) - 0.5) * 10))) \<and>
   mVy (calc_loop fp c d i r) ! j =
     (if j < i then mVy r ! j else f32 fp (f64 fp (f64 fp (d (3 * j + 2) - 0.5) * 10)))"
proof (induction fp c d i r rule: calc_loop.induct)
  case (1 fp c d i r)
  show ?case
  proof (cases "i < MAX_INSTANCES_ITEM c * 2")
    case True
    let ?r1 = "calc_body fp d i r"
    have "localOffset (calc_loop fp c d (i + 1) ?r1) ! j =
            (if j < i + 1 then localOffset ?r1 ! j
             else f32 fp (f64 fp (f64 fp (d (3 * j) - 0.5) * offsetRatio ?r1))) \<and>
          mVx (calc_loop fp c d (i + 1) ?r1) ! j =
            (if j < i + 1 then mVx ?r1 ! j else f32 fp (f64 fp (f64 fp (d (3 * j + 1) - 0.5) * 10))) \<and>
          mVy (calc_loop fp c d (i + 1) ?r1) ! j =
            (if j < i + 1 then mVy ?r1 ! j else f32 fp (f64 fp (f64 fp (d (3 * j + 2) - 0.5) * 10)))"
      using 1 True by (simp add: calc_body_fields)
    moreover have "j < i \<or> j = i \<or> i < j" by arith
    ultimately show ?thesis
      using True 1(2-5)
      by (elim disjE) (simp_all add: calc_loop.simps [of fp c d i r] calc_body_fields)
  next
    case False
    with 1(5) show ?thesis by (simp add: calc_loop.simps [of fp c d i r])
  qed
qed

lemma angle_body_fields:
  "localOffset (angle_body fp c d i r) = localOffset r"
  "mVx (angle_body fp c d i r) = mVx r"
  "mVy (angle_body fp c d i r) = mVy r"
  "offsetRatio (angle_body fp c d i r) = offsetRatio r"
  "mNumInstances (angle_body fp c d i r) = mNumInstances r"
  "mScale (angle_body fp c d i r) = mScale r"
  "offsetBuf (angle_body fp c d i r) = offsetBuf r"
  by (simp_all add: angle_body_def Let_def)

lemma angle_loop_fields:
  "localOffset (angle_loop fp c d i r) = localOffset r \<and>
   mVx (angle_loop fp c d i r) = mVx r \<and>
   mVy (angle_loop fp c d i r) = mVy r \<and>
   offsetRatio (angle_loop fp c d i r) = offsetRatio r \<and>
   mNumInstances (angle_loop fp c d i r) = mNumInstances r \<and>
   mScale (angle_loop fp c d i r) = mScale r \<and>
   offsetBuf (angle_loop fp c d i r) = offsetBuf r"
proof (induction fp c d i r rule: angle_loop.induct)
  case (1 fp c d i r)
  show ?case
  proof (cases "i < mNumInstances r")
    case True
    with 1 show ?thesis
      by (simp add: angle_loop.simps [of fp c d i r] angle_body_fields)
  next
    case False
    then show ?thesis by (simp add: angle_loop.simps [of fp c d i r])
  qed
qed

lemma resize_lengths:
  "length (localOffset (fst (resize fp c d g w h re))) = MAX_INSTANCES_ITEM c * 2 \<and>
   length (mVx (fst (resize fp c d g w h re))) = MAX_INSTANCES_ITEM c * 2 \<and>
   length (mVy (fst (resize fp c d g w h re))) = MAX_INSTANCES_ITEM c * 2 \<and>
   offsetRatio (fst (resize fp c d g w h re)) = f32 fp 2 \<and>
   mNumInstances (fst (resize fp c d g w h re)) = MAX_INSTANCES_ITEM c"
  by (cases re) (simp add: resize_def calcSceneParams_def Let_def angle_loop_fields calc_loop_fields)

text \<open>
  Every element of the three arrays is written by the loop of \<^verbatim>\<open>calcSceneParams\<close>: what
  the allocation left in them does not show in the result.
\<close>

lemma resize_nth:
  assumes "j < MAX_INSTANCES_ITEM c * 2"
  shows "localOffset (fst (resize fp c d g w h re)) ! j =
           f32 fp (f64 fp (f64 fp (d (3 * j) - 0.5) * f32 fp 2)) \<and>
         mVx (fst (resize fp c d g w h re)) ! j = f32 fp (f64 fp (f64 fp (d (3 * j + 1) - 0.5) * 10)) \<and>
         mVy (fst (resize fp c d g w h re)) ! j = f32 fp (f64 fp (f64 fp (d (3 * j + 2) - 0.5) * 10))"
  using assms
  by (cases re) (simp add: resize_def calcSceneParams_def Let_def angle_loop_fields calc_loop_nth)

lemma resize_mScale:
  "mScale (fst (resize fp c d g w h re)) =
     (Fin (f32 fp 0.1),
      fdiv32 fp (f32 fp (f32 fp 0.1 * f32 fp (real (unat h)))) (f32 fp (real (unat w))))"
  by (cases re) (simp add: resize_def calcSceneParams_def Let_def angle_loop_fields)

lemma resize_mLastFrameNs: "mLastFrameNs (fst (resize fp c d g w h re)) = 0"
  by (simp add: resize_def Let_def split: prod.splits)

lemma resize_allocated: "allocated c (fst (resize fp c d g w h re))"
  using resize_lengths [of fp c d g w h re] by (simp add: allocated_def)

lemma sint_nonneg_unat:
  fixes x :: "32 word"
  assumes "0 \<le> sint x"
  shows "real (unat x) = real_of_int (sint x)"
proof -
  have "sint x < 2 ^ 31"
    using sint_lt [of x] by simp
  then have "sint x < 2 ^ 32" by simp
  with assms have "take_bit 32 (sint x) = sint x"
    by (simp add: take_bit_int_eq_self)
  then have "uint x = sint x"
    using uint_sint [of x] by simp
  moreover have "int (unat x) = uint x"
    by simp
  ultimately have "int (unat x) = sint x" by simp
  then have "real_of_int (int (unat x)) = real_of_int (sint x)" by (rule arg_cong)
  then show ?thesis by simp
qed

text \<open>
  The seeding expressions stay in their ranges after rounding: rounding is monotone and
  the bounds are numbers of both formats.
\<close>

lemma seed_range:
  assumes fp: "fp = ieee \<or> fp = exact" and t: "0 \<le> t" "t < 1"
  shows "- 1 \<le> f32 fp (f64 fp (f64 fp (t - 0.5) * 2)) \<and> f32 fp (f64 fp (f64 fp (t - 0.5) * 2)) \<le> 1"
    and "- 5 \<le> f32 fp (f64 fp (f64 fp (t - 0.5) * 10)) \<and> f32 fp (f64 fp (f64 fp (t - 0.5) * 10)) \<le> 5"
proof -
  have ieee: "- 1 \<le> rne binary32 (rne binary64 (rne binary64 (t - 1 / 2) * 2)) \<and>
              rne binary32 (rne binary64 (rne binary64 (t - 1 / 2) * 2)) \<le> 1 \<and>
              - 5 \<le> rne binary32 (rne binary64 (rne binary64 (t - 1 / 2) * 10)) \<and>
              rne binary32 (rne binary64 (rne binary64 (t - 1 / 2) * 10)) \<le> 5"
  proof -
    define a where "a = rne binary64 (t - 1 / 2)"
    have a: "- (1 / 2) \<le> a \<and> a \<le> 1 / 2"
      unfolding a_def using t
      by (intro binary64_between) (simp_all add: rne_minus binary64_consts)
    then have "- 1 \<le> rne binary64 (a * 2) \<and> rne binary64 (a * 2) \<le> 1"
      by (intro binary64_between) (simp_all add: rne_minus binary64_consts)
    then have two: "- 1 \<le> rne binary32 (rne binary64 (a * 2)) \<and> rne binary32 (rne binary64 (a * 2)) \<le> 1"
      by (intro binary32_between) (simp_all add: rne_minus binary32_consts)
    from a have "- 5 \<le> rne binary64 (a * 10) \<and> rne binary64 (a * 10) \<le> 5"
      by (intro binary64_between) (simp_all add: rne_minus binary64_consts)
    then have "- 5 \<le> rne binary32 (rne binary64 (a * 10)) \<and> rne binary32 (rne binary64 (a * 10)) \<le> 5"
      by (intro binary32_between) (simp_all add: rne_minus binary32_consts)
    with two show ?thesis
      by (simp add: a_def)
  qed
  from fp show "- 1 \<le> f32 fp (f64 fp (f64 fp (t - 0.5) * 2)) \<and> f32 fp (f64 fp (f64 fp (t - 0.5) * 2)) \<le> 1"
  proof
    assume "fp = ieee"
    with ieee show ?thesis by simp
  next
    assume "fp = exact"
    with t show ?thesis by simp
  qed
  from fp show "- 5 \<le> f32 fp (f64 fp (f64 fp (t - 0.5) * 10)) \<and> f32 fp (f64 fp (f64 fp (t - 0.5) * 10)) \<le> 5"
  proof
    assume "fp = ieee"
    with ieee show ?thesis by simp
  next
    assume "fp = exact"
    with t show ?thesis by simp
  qed
qed

lemma f32_two: "fp = ieee \<or> fp = exact \<Longrightarrow> f32 fp 2 = 2"
  by (auto simp: binary32_consts)

text \<open>
  Claim C4. After \<^verbatim>\<open>resize(w, h)\<close>, with \<^verbatim>\<open>drand48()\<close> returning values in \<open>[0, 1)\<close>,
  the three arrays have \<open>2 * MAX_INSTANCES_ITEM\<close> elements and \<^verbatim>\<open>offsetRatio\<close> is 2. Every
  element is seeded from a \<^verbatim>\<open>drand48()\<close> value of its own: element \<open>j\<close> of the positions is
  \<open>(d (3 j) - 0.5) * offsetRatio\<close>, element \<open>j\<close> of the two velocity arrays is
  \<open>(d (3 j + 1) - 0.5) * 10\<close> and \<open>(d (3 j + 2) - 0.5) * 10\<close>, each computed in \<^verbatim>\<open>double\<close> and
  rounded to \<^verbatim>\<open>float\<close>, whatever the new arrays contained; so every position component lies
  in \<open>[-offsetRatio/2, offsetRatio/2]\<close> (that is \<open>[-1, 1]\<close>) and every velocity component in
  \<open>[-5, 5]\<close>. The last-frame time stamp is 0. This holds in binary32/binary64 arithmetic and
  in exact arithmetic.
\<close>

theorem resize_seeds_instances:
  assumes "\<forall>k. 0 \<le> d k \<and> d k < 1" and "fp = ieee \<or> fp = exact"
  shows "let r = fst (resize fp c d junk w h re) in
         length (localOffset r) = 2 * MAX_INSTANCES_ITEM c \<and>
         length (mVx r) = 2 * MAX_INSTANCES_ITEM c \<and>
         length (mVy r) = 2 * MAX_INSTANCES_ITEM c \<and>
         offsetRatio r = 2 \<and>
         (\<forall>j < 2 * MAX_INSTANCES_ITEM c.
            localOffset r ! j = f32 fp (f64 fp (f64 fp (d (3 * j) - 0.5) * offsetRatio r)) \<and>
            mVx r ! j = f32 fp (f64 fp (f64 fp (d (3 * j + 1) - 0.5) * 10)) \<and>
            mVy r ! j = f32 fp (f64 fp (f64 fp (d (3 * j + 2) - 0.5) * 10)) \<and>
            - (offsetRatio r / 2) \<le> localOffset r ! j \<and> localOffset r ! j \<le> offsetRatio r / 2 \<and>
            - 5 \<le> mVx r ! j \<and> mVx r ! j \<le> 5 \<and>
            - 5 \<le> mVy r ! j \<and> mVy r ! j \<le> 5) \<and>
         mLastFrameNs r = 0"
proof -
  let ?r = "fst (resize fp c d junk w h re)"
  note two = f32_two [OF assms(2)]
  have ratio: "offsetRatio ?r = 2"
    using resize_lengths [of fp c d junk w h re] by (simp add: two)
  have elems: "localOffset ?r ! j = f32 fp (f64 fp (f64 fp (d (3 * j) - 0.5) * 2)) \<and>
        mVx ?r ! j = f32 fp (f64 fp (f64 fp (d (3 * j + 1) - 0.5) * 10)) \<and>
        mVy ?r ! j = f32 fp (f64 fp (f64 fp (d (3 * j + 2) - 0.5) * 10))"
    if "j < 2 * MAX_INSTANCES_ITEM c" for j
  proof -
    from that have j: "j < MAX_INSTANCES_ITEM c * 2" by simp
    show ?thesis
      using resize_nth [OF j, of fp d junk w h re] by (simp add: two)
  qed
  have range: "- 1 \<le> f32 fp (f64 fp (f64 fp (d k - 0.5) * 2)) \<and>
               f32 fp (f64 fp (f64 fp (d k - 0.5) * 2)) \<le> 1 \<and>
               - 5 \<le> f32 fp (f64 fp (f64 fp (d k - 0.5) * 10)) \<and>
               f32 fp (f64 fp (f64 fp (d k - 0.5) * 10)) \<le> 5" for k
    using seed_range [OF assms(2), of "d k"] assms(1) [rule_format, of k] by simp
  have each: "localOffset ?r ! j = f32 fp (f64 fp (f64 fp (d (3 * j) - 0.5) * offsetRatio ?r)) \<and>
        mVx ?r ! j = f32 fp (f64 fp (f64 fp (d (3 * j + 1) - 0.5) * 10)) \<and>
        mVy ?r ! j = f32 fp (f64 fp (f64 fp (d (3 * j + 2) - 0.5) * 10)) \<and>
        - (offsetRatio ?r / 2) \<le> localOffset ?r ! j \<and> localOffset ?r ! j \<le> offsetRatio ?r / 2 \<and>
        - 5 \<le> mVx ?r ! j \<and> mVx ?r ! j \<le> 5 \<and>
        - 5 \<le> mVy ?r ! j \<and> mVy ?r ! j \<le> 5"
    if "j < 2 * MAX_INSTANCES_ITEM c" for j
    using elems [OF that] range [of "3 * j"] range [of "3 * j + 1"] range [of "3 * j + 2"]
    by (simp add: ratio)
  have lens: "length (localOffset ?r) = 2 * MAX_INSTANCES_ITEM c"
    "length (mVx ?r) = 2 * MAX_INSTANCES_ITEM c" "length (mVy ?r) = 2 * MAX_INSTANCES_ITEM c"
    using resize_lengths [of fp c d junk w h re] by (simp_all add: mult.commute)
  have clock: "mLastFrameNs ?r = 0"
    by (rule resize_mLastFrameNs)
  show ?thesis
    unfolding Let_def using lens ratio each clock by blast
qed

theorem resize_seeds_instances_witness:
  "(\<forall>k. 0 \<le> tenths k \<and> tenths k < 1) \<and> (ieee = ieee \<or> ieee = exact) \<and>
   length (localOffset (fst (resize ieee two_quads tenths stale 1080 1920 (Renderer_ctor 2 4, no_env)))) = 4 \<and>
   length (mVx (fst (resize ieee two_quads tenths stale 1080 1920 (Renderer_ctor 2 4, no_env)))) = 4 \<and>
   offsetRatio (fst (resize ieee two_quads tenths stale 1080 1920 (Renderer_ctor 2 4, no_env))) = 2 \<and>
   localOffset (fst (resize ieee two_quads tenths stale 1080 1920 (Renderer_ctor 2 4, no_env))) ! 0 =
     - (13421773 / 16777216) \<and>
   - 1 \<le> localOffset (fst (resize ieee two_quads tenths stale 1080 1920 (Renderer_ctor 2 4, no_env))) ! 0 \<and>
   mVy (fst (resize ieee two_quads tenths stale 1080 1920 (Renderer_ctor 2 4, no_env))) ! 1 = 1 \<and>
   mVx (fst (resize ieee two_quads tenths stale 1080 1920 (Renderer_ctor 2 4, no_env))) ! 3 = - 4 \<and>
   mVx (fst (resize ieee two_quads tenths stale 1080 1920 (Renderer_ctor 2 4, no_env))) ! 3 \<le> 5 \<and>
   mLastFrameNs (fst (resize ieee two_quads tenths stale 1080 1920 (Renderer_ctor 2 4, no_env))) = 0"
proof -
  let ?r = "fst (resize ieee two_quads tenths stale 1080 1920 (Renderer_ctor 2 4, no_env))"
  have d: "\<forall>k. 0 \<le> tenths k \<and> tenths k < 1"
    by (simp add: tenths_def)
  have u: "ieee = ieee \<or> ieee = exact" by simp
  have n: "2 * MAX_INSTANCES_ITEM two_quads = 4" by (simp add: two_quads_def)
  note T = resize_seeds_instances [OF d u, of two_quads stale 1080 1920 "(Renderer_ctor 2 4, no_env)",
      unfolded Let_def n]
  from T have len: "length (localOffset ?r) = 4" "length (mVx ?r) = 4" by blast+
  from T have ratio: "offsetRatio ?r = 2" by blast
  from T have clock: "mLastFrameNs ?r = 0" by blast
  from T have each: "\<forall>j<4.
      localOffset ?r ! j = f32 ieee (f64 ieee (f64 ieee (tenths (3 * j) - 0.5) * offsetRatio ?r)) \<and>
      mVx ?r ! j = f32 ieee (f64 ieee (f64 ieee (tenths (3 * j + 1) - 0.5) * 10)) \<and>
      mVy ?r ! j = f32 ieee (f64 ieee (f64 ieee (tenths (3 * j + 2) - 0.5) * 10)) \<and>
      - (offsetRatio ?r / 2) \<le> localOffset ?r ! j \<and> localOffset ?r ! j \<le> offsetRatio ?r / 2 \<and>
      - 5 \<le> mVx ?r ! j \<and> mVx ?r ! j \<le> 5 \<and> - 5 \<le> mVy ?r ! j \<and> mVy ?r ! j \<le> 5"
    by blast
  have a1: "rne binary64 (2 / 5) = 3602879701896397 / 9007199254740992"
    using binary64_at [of "- 2" "2 / 5"] by (simp add: round_even_def)
  have a2: "rne binary64 (3602879701896397 / 4503599627370496) = 3602879701896397 / 4503599627370496"
    using binary64_at [of "- 1" "3602879701896397 / 4503599627370496"] by (simp add: round_even_def)
  have a3: "rne binary32 (3602879701896397 / 4503599627370496) = 13421773 / 16777216"
    using binary32_at [of "- 1" "3602879701896397 / 4503599627370496"] by (simp add: round_even_def)
  have a4: "rne binary64 (18014398509481985 / 4503599627370496) = 4"
    using binary64_at [of 2 "18014398509481985 / 4503599627370496"] by (simp add: round_even_def)
  have a5: "rne binary32 4 = 4"
    using binary32_float [of 4 4 0] by simp
  have a6: "rne binary64 (18014398509481985 / 18014398509481984) = 1"
    using binary64_at [of 0 "18014398509481985 / 18014398509481984"] by (simp add: round_even_def)
  have x0: "localOffset ?r ! 0 = - (13421773 / 16777216) \<and> - 1 \<le> localOffset ?r ! 0"
    using each [rule_format, of 0] ratio
    by (simp add: tenths_def rne_minus a1 a2 a3)
  have y1: "mVy ?r ! 1 = 1"
    using each [rule_format, of 1]
    by (simp add: tenths_def binary64_tenth a6 binary32_consts)
  have v3: "mVx ?r ! 3 = - 4 \<and> mVx ?r ! 3 \<le> 5"
    using each [rule_format, of 3]
    by (simp add: tenths_def rne_minus a1 a4 a5)
  show ?thesis
    using d len ratio x0 y1 v3 clock by simp
qed

text \<open>The relative error of a \<^verbatim>\<open>float\<close> rounding in the normal range.\<close>

lemma binary32_relative:
  assumes "2 powi (- 126) \<le> x"
  shows "(1 - 1 / 16777216) * x \<le> rne binary32 x \<and> rne binary32 x \<le> (1 + 1 / 16777216) * x"
proof -
  have "0 < (2::real) powi (- 126)" by (rule two_powi_pos)
  with assms have pos: "0 < x" by linarith
  with assms have "2 powi (emin binary32) \<le> \<bar>x\<bar>" by (simp only: binary32_fields abs_of_pos)
  from rne_relative_error [OF this] pos
  have "\<bar>rne binary32 x - x\<bar> \<le> 2 powi (- 24) * x" by simp
  moreover have "(2::real) powi (- 24) = 1 / 16777216"
    by simp
  ultimately have "\<bar>rne binary32 x - x\<bar> \<le> 1 / 16777216 * x" by simp
  then have "x - x / 16777216 \<le> rne binary32 x" "rne binary32 x \<le> x + x / 16777216"
    by linarith+
  moreover have "(1 - 1 / 16777216) * x = x - x / 16777216" "(1 + 1 / 16777216) * x = x + x / 16777216"
    by (simp_all add: algebra_simps)
  ultimately show ?thesis by simp
qed

text \<open>
  Five roundings (the literal, the two conversions, the product, the quotient) keep the y
  scale within \<open>2 powi (- 21)\<close> of \<open>0.1 * (H / W)\<close>, relatively.
\<close>

lemma scale_y_error:
  fixes H W :: real
  assumes H: "H = 0 \<or> 1 \<le> H" and W: "1 \<le> W" "W \<le> 2 ^ 31"
  shows "\<bar>rne binary32 (rne binary32 (13421773 / 134217728 * rne binary32 H) / rne binary32 W)
           - 1 / 10 * (H / W)\<bar> \<le> 1 / 10 * (H / W) / 2 ^ 21"
proof -
  define u :: real where "u = 1 / 16777216"
  define a :: real where "a = 13421773 / 134217728"
  have u: "0 < u" "u < 1" by (simp_all add: u_def)
  have tiny: "(2::real) powi (- 126) \<le> 1 / 2 ^ 40"
    by simp
  from H show ?thesis
  proof
    assume "H = 0"
    then show ?thesis by simp
  next
    assume H1: "1 \<le> H"
    define H' where "H' = rne binary32 H"
    define W' where "W' = rne binary32 W"
    define P where "P = rne binary32 (a * H')"
    define Q where "Q = rne binary32 (P / W')"
    have small: "1 / 2 ^ 40 \<le> (1::real)" by simp
    from small H1 have "1 / 2 ^ 40 \<le> H" by (rule order_trans)
    with tiny have "2 powi (- 126) \<le> H" by (rule order_trans)
    from binary32_relative [OF this]
    have H': "(1 - u) * H \<le> H'" "H' \<le> (1 + u) * H"
      by (simp_all add: H'_def u_def)
    from small W(1) have "1 / 2 ^ 40 \<le> W" by (rule order_trans)
    with tiny have "2 powi (- 126) \<le> W" by (rule order_trans)
    from binary32_relative [OF this]
    have W': "(1 - u) * W \<le> W'" "W' \<le> (1 + u) * W"
      by (simp_all add: W'_def u_def)
    have Hpos: "0 < H" and Wpos: "0 < W" using H1 W(1) by simp_all
    have W'pos: "0 < W'"
      using W'(1) u Wpos by (meson less_le_trans mult_pos_pos diff_gt_0_iff_gt)
    have H'ge: "1 / 2 \<le> H'"
    proof -
      have "1 / 2 \<le> (1 - u) * 1" by (simp add: u_def)
      also have "\<dots> \<le> (1 - u) * H" using H1 u by (intro mult_left_mono) simp_all
      finally show ?thesis using H'(1) by simp
    qed
    have apos: "0 \<le> a" by (simp add: a_def)
    have aH': "a * ((1 - u) * H) \<le> a * H'" "a * H' \<le> a * ((1 + u) * H)"
      using H' apos by (auto intro: mult_left_mono)
    have "1 / 2 ^ 40 \<le> a * (1 / 2)" by (simp add: a_def)
    also have "\<dots> \<le> a * H'" using H'ge by (simp add: a_def)
    finally have "1 / 2 ^ 40 \<le> a * H'" .
    with tiny have "2 powi (- 126) \<le> a * H'" by (rule order_trans)
    from binary32_relative [OF this]
    have P0: "(1 - u) * (a * H') \<le> P" "P \<le> (1 + u) * (a * H')"
      by (simp_all add: P_def u_def)
    have P: "(1 - u) * (a * ((1 - u) * H)) \<le> P" "P \<le> (1 + u) * (a * ((1 + u) * H))"
    proof -
      have "(1 - u) * (a * ((1 - u) * H)) \<le> (1 - u) * (a * H')"
        using aH'(1) u by (intro mult_left_mono [where c = "1 - u"]) simp_all
      with P0(1) show "(1 - u) * (a * ((1 - u) * H)) \<le> P" by simp
      have "(1 + u) * (a * H') \<le> (1 + u) * (a * ((1 + u) * H))"
        using aH'(2) u by (intro mult_left_mono [where c = "1 + u"]) simp_all
      with P0(2) show "P \<le> (1 + u) * (a * ((1 + u) * H))" by simp
    qed
    have Pge: "1 / 32 \<le> P"
    proof -
      have "1 / 32 \<le> (1 - u) * (a * (1 / 2))" by (simp add: u_def a_def)
      also have "\<dots> \<le> (1 - u) * (a * H')"
        using H'ge u apos by (intro mult_left_mono) simp_all
      finally show ?thesis using P0(1) by simp
    qed
    have W'le: "W' \<le> 2 ^ 32"
    proof -
      have "(1 + u) * W \<le> 2 * 2 ^ 31"
        using W u by (intro mult_mono) simp_all
      with W'(2) show ?thesis by simp
    qed
    have "1 / 2 ^ 40 \<le> (1 / 32) / (2 ^ 32 :: real)" by simp
    also have "\<dots> \<le> P / W'"
      using Pge W'le W'pos by (intro frac_le) simp_all
    finally have "1 / 2 ^ 40 \<le> P / W'" .
    with tiny have "2 powi (- 126) \<le> P / W'" by (rule order_trans)
    from binary32_relative [OF this]
    have Q0: "(1 - u) * (P / W') \<le> Q" "Q \<le> (1 + u) * (P / W')"
      by (simp_all add: Q_def u_def)
    have lowW: "0 < (1 - u) * W" using u Wpos by simp
    have Ppos: "0 \<le> P" using Pge by simp
    have up: "P / W' \<le> (1 + u) * (a * ((1 + u) * H)) / ((1 - u) * W)"
      using P(2) W'(1) lowW Ppos
      by (intro frac_le) (auto intro: order_trans)
    have low0: "0 \<le> (1 - u) * (a * ((1 - u) * H))"
      using u Hpos by (simp add: a_def)
    have down: "(1 - u) * (a * ((1 - u) * H)) / ((1 + u) * W) \<le> P / W'"
      using P(1) W'(2) W'pos low0
      by (intro frac_le) simp_all
    have Qup: "Q \<le> (1 + u) * ((1 + u) * (a * ((1 + u) * H)) / ((1 - u) * W))"
    proof -
      have "(1 + u) * (P / W') \<le> (1 + u) * ((1 + u) * (a * ((1 + u) * H)) / ((1 - u) * W))"
        using up u by (intro mult_left_mono) simp_all
      with Q0(2) show ?thesis by simp
    qed
    have Qdown: "(1 - u) * ((1 - u) * (a * ((1 - u) * H)) / ((1 + u) * W)) \<le> Q"
    proof -
      have "(1 - u) * ((1 - u) * (a * ((1 - u) * H)) / ((1 + u) * W)) \<le> (1 - u) * (P / W')"
        using down u by (intro mult_left_mono) simp_all
      with Q0(1) show ?thesis by simp
    qed
    define R where "R = H / W"
    have Rpos: "0 < R" using Hpos Wpos by (simp add: R_def)
    have e1: "(1 + u) * ((1 + u) * (a * ((1 + u) * H)) / ((1 - u) * W)) = ((1 + u) ^ 3 * a / (1 - u)) * R"
      using u by (simp add: R_def power3_eq_cube)
    have e2: "(1 - u) * ((1 - u) * (a * ((1 - u) * H)) / ((1 + u) * W)) = ((1 - u) ^ 3 * a / (1 + u)) * R"
      using u by (simp add: R_def power3_eq_cube)
    have n1: "(1 + u) ^ 3 * a / (1 - u) \<le> 1 / 10 + 1 / 10 / 2 ^ 21"
      by (simp add: u_def a_def power3_eq_cube)
    have n2: "1 / 10 - 1 / 10 / 2 ^ 21 \<le> (1 - u) ^ 3 * a / (1 + u)"
      by (simp add: u_def a_def power3_eq_cube)
    have "Q \<le> ((1 + u) ^ 3 * a / (1 - u)) * R"
      using Qup by (simp only: e1)
    also have "\<dots> \<le> (1 / 10 + 1 / 10 / 2 ^ 21) * R"
      using n1 Rpos by (intro mult_right_mono) simp_all
    finally have hi: "Q \<le> (1 / 10 + 1 / 10 / 2 ^ 21) * R" .
    have "(1 / 10 - 1 / 10 / 2 ^ 21) * R \<le> ((1 - u) ^ 3 * a / (1 + u)) * R"
      using n2 Rpos by (intro mult_right_mono) simp_all
    also have "\<dots> \<le> Q"
      using Qdown by (simp only: e2)
    finally have lo: "(1 / 10 - 1 / 10 / 2 ^ 21) * R \<le> Q" .
    have "(1 / 10 + 1 / 10 / 2 ^ 21) * R = 1 / 10 * R + 1 / 10 * R / 2 ^ 21"
      "(1 / 10 - 1 / 10 / 2 ^ 21) * R = 1 / 10 * R - 1 / 10 * R / 2 ^ 21"
      by (simp_all add: algebra_simps)
    with hi lo have "Q \<le> 1 / 10 * R + 1 / 10 * R / 2 ^ 21" "1 / 10 * R - 1 / 10 * R / 2 ^ 21 \<le> Q"
      by simp_all
    then have "\<bar>Q - 1 / 10 * R\<bar> \<le> 1 / 10 * R / 2 ^ 21"
      by linarith
    then show ?thesis
      by (simp add: Q_def P_def W'_def H'_def a_def R_def)
  qed
qed

text \<open>
  Claim C5, as amended. After \<^verbatim>\<open>resize(w, h)\<close> with \<open>w > 0\<close> and \<open>h \<ge> 0\<close> the x scale is the
  \<^verbatim>\<open>float\<close> nearest to 0.1, which is \<open>13421773 / 2 ^ 27\<close>, and the y scale is the \<^verbatim>\<open>float\<close>
  result of \<^verbatim>\<open>(0.1f * h) / w\<close>, rounded after the conversions of \<open>h\<close> and \<open>w\<close>, after the product
  and after the division. It differs from \<open>0.1 * (h / w)\<close> by at most that number divided by
  \<open>2 ^ 21\<close>.
\<close>

theorem resize_scale:
  assumes "0 < sint w" and "0 \<le> sint h"
  shows "let H = real_of_int (sint h); W = real_of_int (sint w);
             sy = f32 ieee (f32 ieee (f32 ieee 0.1 * f32 ieee H) / f32 ieee W)
         in mScale (fst (resize ieee c d junk w h re)) = (Fin (f32 ieee 0.1), Fin sy) \<and>
            f32 ieee 0.1 = 13421773 / 134217728 \<and>
            \<bar>sy - 0.1 * (H / W)\<bar> \<le> 0.1 * (H / W) / 2 ^ 21"
proof -
  define H where "H = real_of_int (sint h)"
  define W where "W = real_of_int (sint w)"
  from assms(1) have "0 \<le> sint w" by simp
  then have uw: "real (unat w) = W"
    unfolding W_def by (rule sint_nonneg_unat)
  from assms(2) have uh: "real (unat h) = H"
    unfolding H_def by (rule sint_nonneg_unat)
  from assms(1) have "1 \<le> sint w" by simp
  then have "real_of_int 1 \<le> real_of_int (sint w)"
    by (simp only: of_int_le_iff)
  then have W1: "1 \<le> W"
    by (simp add: W_def)
  have "sint w < 2 ^ 31"
    using sint_lt [of w] by simp
  then have "real_of_int (sint w) < real_of_int (2 ^ 31)"
    by (simp only: of_int_less_iff)
  then have W31: "W \<le> 2 ^ 31"
    by (simp add: W_def)
  from assms(2) have "sint h = 0 \<or> 1 \<le> sint h" by linarith
  then have "real_of_int (sint h) = real_of_int 0 \<or> real_of_int 1 \<le> real_of_int (sint h)"
    by (simp only: of_int_eq_iff of_int_le_iff)
  then have Hc: "H = 0 \<or> 1 \<le> H"
    by (simp add: H_def)
  have "rne binary32 1 \<le> rne binary32 W"
    using W1 by (rule binary32_mono)
  then have W': "rne binary32 W \<noteq> 0"
    by (simp add: binary32_consts)
  have m: "mScale (fst (resize ieee c d junk w h re)) =
        (Fin (rne binary32 (1 / 10)),
         Fin (rne binary32 (rne binary32 (rne binary32 (1 / 10) * rne binary32 H) / rne binary32 W)))"
    unfolding resize_mScale uw uh using W' by (simp add: fdiv32_def)
  show ?thesis
    unfolding Let_def H_def [symmetric] W_def [symmetric]
    using m scale_y_error [OF Hc W1 W31]
    by (simp add: binary32_tenth)
qed

theorem resize_scale_witness:
  "0 < sint (1080 :: 32 word) \<and> 0 \<le> sint (1920 :: 32 word) \<and>
   mScale (fst (resize ieee two_quads tenths stale 1080 1920 (Renderer_ctor 2 4, no_env))) =
     (Fin (13421773 / 134217728), Fin (11930465 / 67108864)) \<and>
   \<bar>11930465 / 67108864 - 0.1 * (1920 / 1080)\<bar> \<le> 0.1 * (1920 / 1080) / (2 ^ 21 :: real)"
proof -
  have w: "0 < sint (1080 :: 32 word)" by simp
  have h: "0 \<le> sint (1920 :: 32 word)" by simp
  have b1: "rne binary32 1920 = 1920" "rne binary32 1080 = 1080"
    using binary32_float [of 1920 1920 0] binary32_float [of 1080 1080 0] by simp_all
  have b2: "rne binary32 (201326595 / 1048576) = 192"
    using binary32_at [of 7 "201326595 / 1048576"] by (simp add: round_even_def)
  have b3: "rne binary32 (8 / 45) = 11930465 / 67108864"
    using binary32_at [of "- 3" "8 / 45"] by (simp add: round_even_def)
  from resize_scale [OF w h, of two_quads tenths stale "(Renderer_ctor 2 4, no_env)"]
  have "mScale (fst (resize ieee two_quads tenths stale 1080 1920 (Renderer_ctor 2 4, no_env))) =
          (Fin (13421773 / 134217728), Fin (11930465 / 67108864)) \<and>
        \<bar>11930465 / 67108864 - 0.1 * (1920 / 1080)\<bar> \<le> 0.1 * (1920 / 1080) / (2 ^ 21 :: real)"
    by (simp add: Let_def binary32_tenth b1 b2 b3)
  with w h show ?thesis by blast
qed

text \<open>
  Claim C5 as stated fails: the scale is not exactly \<open>(0.1, 0.1 * (h / w))\<close>. After
  \<^verbatim>\<open>resize(1080, 2340)\<close> the x scale is \<open>13421773 / 2 ^ 27\<close>, not \<open>1/10\<close>, and the y scale is
  \<open>7270127 / 2 ^ 25\<close>: neither the real number \<open>0.1 * (2340 / 1080) = 13/60\<close> nor what
  \<^verbatim>\<open>0.1f * (h / w)\<close> gives in \<^verbatim>\<open>float\<close> arithmetic, \<open>14540255 / 2 ^ 26\<close>.
\<close>

theorem resize_scale_is_rounded:
  "mScale (fst (resize ieee one_quad tenths stale 1080 2340 (Renderer_ctor 1 2, no_env))) =
     (Fin (13421773 / 134217728), Fin (7270127 / 33554432)) \<and>
   mScale (fst (resize ieee one_quad tenths stale 1080 2340 (Renderer_ctor 1 2, no_env))) \<noteq>
     (Fin 0.1, Fin (0.1 * (real_of_int (sint (2340 :: 32 word)) / real_of_int (sint (1080 :: 32 word))))) \<and>
   fst (mScale (fst (resize ieee one_quad tenths stale 1080 2340 (Renderer_ctor 1 2, no_env)))) \<noteq> Fin 0.1 \<and>
   snd (mScale (fst (resize ieee one_quad tenths stale 1080 2340 (Renderer_ctor 1 2, no_env)))) \<noteq>
     Fin (0.1 * (real_of_int (sint (2340 :: 32 word)) / real_of_int (sint (1080 :: 32 word)))) \<and>
   f32 ieee (f32 ieee 0.1 * f32 ieee (f32 ieee 2340 / f32 ieee 1080)) = 14540255 / 67108864 \<and>
   snd (mScale (fst (resize ieee one_quad tenths stale 1080 2340 (Renderer_ctor 1 2, no_env)))) \<noteq>
     Fin (f32 ieee (f32 ieee 0.1 * f32 ieee (f32 ieee 2340 / f32 ieee 1080)))"
proof -
  have b1: "rne binary32 2340 = 2340" "rne binary32 1080 = 1080"
    using binary32_float [of 2340 2340 0] binary32_float [of 1080 1080 0] by simp_all
  have b2: "rne binary32 (7851737205 / 33554432) = 234"
    using binary32_at [of 7 "7851737205 / 33554432"] by (simp add: round_even_def)
  have b3: "rne binary32 (13 / 60) = 7270127 / 33554432"
    using binary32_at [of "- 3" "13 / 60"] by (simp add: round_even_def)
  have b4: "rne binary32 (13 / 6) = 9087659 / 4194304"
    using binary32_at [of 1 "13 / 6"] by (simp add: round_even_def)
  have b5: "rne binary32 (121972496199407 / 562949953421312) = 14540255 / 67108864"
    using binary32_at [of "- 3" "121972496199407 / 562949953421312"] by (simp add: round_even_def)
  have m: "mScale (fst (resize ieee one_quad tenths stale 1080 2340 (Renderer_ctor 1 2, no_env))) =
     (Fin (13421773 / 134217728), Fin (7270127 / 33554432))"
    by (simp add: resize_mScale fdiv32_def binary32_tenth b1 b2 b3)
  have f: "f32 ieee (f32 ieee 0.1 * f32 ieee (f32 ieee 2340 / f32 ieee 1080)) = 14540255 / 67108864"
    by (simp add: binary32_tenth b1 b4 b5)
  show ?thesis
    unfolding m f by simp
qed

subsection \<open>The first step after a resize\<close>

lemma step_when_clock_zero:
  "mLastFrameNs (fst re) = 0 \<Longrightarrow> step fp c now re = ((fst re)\<lparr>mLastFrameNs := nowNs now\<rparr>, snd re)"
  by (cases re) (simp add: step_def)

lemma two_elements: "length xs = 2 \<Longrightarrow> xs = [xs ! 0, xs ! 1]"
  by (cases xs; cases "tl xs") auto

lemma demo_scene_fields:
  assumes "fp = ieee \<or> fp = exact"
  shows "localOffset (fst (demo_scene fp)) = [1 / 2, 1 / 2]"
    and "mVx (fst (demo_scene fp)) = [5 / 2, 5 / 2]"
    and "mVy (fst (demo_scene fp)) = [5 / 2, 5 / 2]"
    and "mLastFrameNs (fst (demo_scene fp)) = 0"
proof -
  let ?r = "fst (demo_scene fp)"
  have len: "length (localOffset ?r) = 2" "length (mVx ?r) = 2" "length (mVy ?r) = 2"
    using resize_lengths [of fp one_quad "\<lambda>k. 3 / 4" "\<lambda>k j. 99" 1080 1920 "(Renderer_ctor 1 2, no_env)"]
    by (simp_all add: demo_scene_def one_quad_def)
  have seed: "f32 fp (f64 fp (f64 fp (3 / 4 - 0.5) * f32 fp 2)) = 1 / 2"
    "f32 fp (f64 fp (f64 fp (3 / 4 - 0.5) * 10)) = 5 / 2"
    using assms by (auto simp: binary32_consts binary64_consts)
  have nth: "localOffset ?r ! j = 1 / 2 \<and> mVx ?r ! j = 5 / 2 \<and> mVy ?r ! j = 5 / 2" if "j < 2" for j
  proof -
    from that have "j < MAX_INSTANCES_ITEM one_quad * 2" by (simp add: one_quad_def)
    from resize_nth [OF this, of fp "\<lambda>k. 3 / 4" "\<lambda>k j. 99" 1080 1920 "(Renderer_ctor 1 2, no_env)"]
    show ?thesis
      by (simp only: demo_scene_def seed)
  qed
  from nth [of 0] nth [of 1]
  have e: "localOffset ?r ! 0 = 1 / 2" "localOffset ?r ! 1 = 1 / 2" "mVx ?r ! 0 = 5 / 2"
    "mVx ?r ! 1 = 5 / 2" "mVy ?r ! 0 = 5 / 2" "mVy ?r ! 1 = 5 / 2"
    by simp_all
  show "localOffset ?r = [1 / 2, 1 / 2]"
    using two_elements [OF len(1)] by (simp only: e)
  show "mVx ?r = [5 / 2, 5 / 2]"
    using two_elements [OF len(2)] by (simp only: e)
  show "mVy ?r = [5 / 2, 5 / 2]"
    using two_elements [OF len(3)] by (simp only: e)
  show "mLastFrameNs ?r = 0"
    by (simp add: demo_scene_def resize_mLastFrameNs)
qed

text \<open>
  Claim C2. The first \<^verbatim>\<open>step()\<close> after a \<^verbatim>\<open>resize()\<close> moves no instance: positions,
  velocities and the offset buffer are as \<^verbatim>\<open>resize\<close> left them, nothing is logged, and
  the last-frame time stamp is the clock value just read.
\<close>

theorem first_step_after_resize_moves_nothing:
  "localOffset (fst (step fp c now (resize fp c d junk w h re))) =
     localOffset (fst (resize fp c d junk w h re)) \<and>
   mVx (fst (step fp c now (resize fp c d junk w h re))) = mVx (fst (resize fp c d junk w h re)) \<and>
   mVy (fst (step fp c now (resize fp c d junk w h re))) = mVy (fst (resize fp c d junk w h re)) \<and>
   offsetBuf (fst (step fp c now (resize fp c d junk w h re))) =
     offsetBuf (fst (resize fp c d junk w h re)) \<and>
   mLastFrameNs (fst (step fp c now (resize fp c d junk w h re))) = nowNs now \<and>
   step fp c now (resize fp c d junk w h re) =
     ((fst (resize fp c d junk w h re))\<lparr>mLastFrameNs := nowNs now\<rparr>, snd (resize fp c d junk w h re))"
  by (simp add: step_when_clock_zero [OF resize_mLastFrameNs])

subsection \<open>Velocities keep their magnitude\<close>

lemma map_abs_update_neg: "map abs (xs[i := - xs ! i]) = map abs (xs :: real list)"
proof (cases "i < length xs")
  case True
  then show ?thesis by (simp add: map_update list_update_same_conv)
next
  case False
  then show ?thesis by (simp add: not_less list_update_beyond)
qed

lemma step_body_speed_x: "map abs (mVx (step_body fp dt i r)) = map abs (mVx r)"
  by (simp add: step_body_def Let_def map_abs_update_neg)

lemma step_body_speed_y: "map abs (mVy (step_body fp dt i r)) = map abs (mVy r)"
  by (simp add: step_body_def Let_def map_abs_update_neg)

lemma step_loop_speed:
  "map abs (mVx (step_loop fp c dt i r)) = map abs (mVx r) \<and>
   map abs (mVy (step_loop fp c dt i r)) = map abs (mVy r)"
proof (induction fp c dt i r rule: step_loop.induct)
  case (1 fp c dt i r)
  show ?case
  proof (cases "int i < 2 * int (MAX_INSTANCES_ITEM c) - 1")
    case True
    with 1 show ?thesis
      by (simp add: step_loop.simps [of fp c dt i r] step_body_speed_x step_body_speed_y)
  next
    case False
    then show ?thesis by (simp add: step_loop.simps [of fp c dt i r])
  qed
qed

text \<open>
  Claim C10. A \<^verbatim>\<open>step()\<close> call leaves the absolute value of every element of \<^verbatim>\<open>mVx\<close>
  and of \<^verbatim>\<open>mVy\<close> as it was (and the arrays as long as they were): it can only flip signs.
  The negation of a \<^verbatim>\<open>float\<close> is exact, so this holds whatever the rounding.
\<close>

theorem step_keeps_speed:
  "map abs (mVx (fst (step fp c now re))) = map abs (mVx (fst re)) \<and>
   map abs (mVy (fst (step fp c now re))) = map abs (mVy (fst re))"
  by (cases re) (simp add: step_def Let_def step_loop_speed)

subsection \<open>What one step does to an instance\<close>

lemma step_body_fields:
  assumes "i + 1 < length (localOffset r)" "i < length (mVx r)" "i < length (mVy r)"
  shows "localOffset (step_body fp dt i r) =
           (localOffset r)[i := bounce_pos fp (localOffset r ! i) (mVx r ! i) dt,
                           i + 1 := bounce_pos fp (localOffset r ! (i + 1)) (mVy r ! i) dt]"
    and "mVx (step_body fp dt i r) = (mVx r)[i := bounce_vel fp (localOffset r ! i) (mVx r ! i) dt]"
    and "mVy (step_body fp dt i r) = (mVy r)[i := bounce_vel fp (localOffset r ! (i + 1)) (mVy r ! i) dt]"
  using assms
  by (simp_all add: step_body_def Let_def bounce_pos_def bounce_vel_def moved_def bounced_def)

lemma step_body_other:
  "mLastFrameNs (step_body fp dt i r) = mLastFrameNs r"
  "mNumInstances (step_body fp dt i r) = mNumInstances r"
  "mScale (step_body fp dt i r) = mScale r"
  by (simp_all add: step_body_def Let_def)

lemma step_body_allocated: "allocated c (step_body fp dt i r) = allocated c r"
  by (simp add: allocated_def step_body_def Let_def)


lemma allocated_clock [simp]: "allocated c (r\<lparr>mLastFrameNs := t\<rparr>) = allocated c r"
  by (simp add: allocated_def)



lemma step_loop_other:
  "mLastFrameNs (step_loop fp c dt i r) = mLastFrameNs r \<and>
   mNumInstances (step_loop fp c dt i r) = mNumInstances r \<and>
   mScale (step_loop fp c dt i r) = mScale r"
proof (induction fp c dt i r rule: step_loop.induct)
  case (1 fp c dt i r)
  show ?case
  proof (cases "int i < 2 * int (MAX_INSTANCES_ITEM c) - 1")
    case True
    with 1 show ?thesis
      by (simp add: step_loop.simps [of fp c dt i r] step_body_other)
  next
    case False
    then show ?thesis by (simp add: step_loop.simps [of fp c dt i r])
  qed
qed

lemma step_mLastFrameNs: "mLastFrameNs (fst (step fp c now re)) = nowNs now"
  by (cases re) (simp add: step_def Let_def)


lemma frame_dt_nonneg:
  assumes "fp = ieee \<or> fp = exact"
  shows "0 \<le> frame_dt fp r now"
  using assms
proof
  assume ieee: "fp = ieee"
  have "0 \<le> rne binary32 (rne binary32 (real (unat (nowNs now - mLastFrameNs r))) *
                          rne binary32 0.000000001)"
    by (intro rne_nonneg mult_nonneg_nonneg of_nat_0_le_iff) simp
  then show ?thesis
    by (simp only: frame_dt_def ieee ieee_f32)
next
  assume exact: "fp = exact"
  have "0 \<le> real (unat (nowNs now - mLastFrameNs r)) * 0.000000001"
    by (intro mult_nonneg_nonneg of_nat_0_le_iff) simp
  then show ?thesis
    by (simp only: frame_dt_def exact exact_f32)
qed

lemma step_loop_nth:
  "allocated c r \<Longrightarrow> even i \<Longrightarrow> j < 2 * MAX_INSTANCES_ITEM c \<Longrightarrow>
   localOffset (step_loop fp c dt i r) ! j =
     (if j < i then localOffset r ! j
      else if even j then bounce_pos fp (localOffset r ! j) (mVx r ! j) dt
      else bounce_pos fp (localOffset r ! j) (mVy r ! (j - 1)) dt) \<and>
   mVx (step_loop fp c dt i r) ! j =
     (if i \<le> j \<and> even j then bounce_vel fp (localOffset r ! j) (mVx r ! j) dt else mVx r ! j) \<and>
   mVy (step_loop fp c dt i r) ! j =
     (if i \<le> j \<and> even j then bounce_vel fp (localOffset r ! (j + 1)) (mVy r ! j) dt else mVy r ! j)"
proof (induction fp c dt i r rule: step_loop.induct)
  case (1 fp c dt i r)
  show ?case
  proof (cases "int i < 2 * int (MAX_INSTANCES_ITEM c) - 1")
    case True
    let ?r1 = "step_body fp dt i r"
    from True 1(2) have i: "i + 1 < length (localOffset r)" "i < length (mVx r)" "i < length (mVy r)"
      by (simp_all add: allocated_def)
    note F = step_body_fields [OF i, of fp dt]
    have a1: "allocated c ?r1"
      using 1(2) by (simp add: step_body_allocated)
    have e2: "even (i + 2)"
      using 1(3) by simp
    note IH = 1(1) [OF True a1 e2 1(4)]
    have unfold: "step_loop fp c dt i r = step_loop fp c dt (i + 2) ?r1"
      using True by (simp add: step_loop.simps [of fp c dt i r])
    consider "j < i" | "j = i" | "j = i + 1" | "i + 2 \<le> j"
      by arith
    then show ?thesis
    proof cases
      case 1
      then show ?thesis
        using IH by (simp add: unfold F)
    next
      case 2
      then show ?thesis
        using IH i \<open>even i\<close> by (simp add: unfold F)
    next
      case 3
      then show ?thesis
        using IH i \<open>even i\<close> by (simp add: unfold F)
    next
      case 4
      then have "j \<noteq> i" "j \<noteq> i + 1" "j + 1 \<noteq> i" "j + 1 \<noteq> i + 1" "\<not> j < i + 2" "\<not> j < i" "i \<le> j"
        by simp_all
      moreover have "odd j \<Longrightarrow> j - 1 \<noteq> i"
        using 4 by arith
      ultimately show ?thesis
        using IH 4 by (simp add: unfold F)
    qed
  next
    case False
    then have "2 * MAX_INSTANCES_ITEM c \<le> i + 1" by simp
    with \<open>even i\<close> have "2 * MAX_INSTANCES_ITEM c \<le> i"
      by presburger
    with 1(4) have "j < i" by simp
    with False show ?thesis
      by (simp add: step_loop.simps [of fp c dt i r])
  qed
qed

text \<open>What a \<^verbatim>\<open>step()\<close> with a previous frame does to instance \<open>k\<close>.\<close>

lemma step_instance:
  assumes "allocated c (fst re)" "mLastFrameNs (fst re) \<noteq> 0" "k < MAX_INSTANCES_ITEM c"
  shows "localOffset (fst (step fp c now re)) ! (2 * k) =
           bounce_pos fp (localOffset (fst re) ! (2 * k)) (mVx (fst re) ! (2 * k)) (frame_dt fp (fst re) now)"
    and "mVx (fst (step fp c now re)) ! (2 * k) =
           bounce_vel fp (localOffset (fst re) ! (2 * k)) (mVx (fst re) ! (2 * k)) (frame_dt fp (fst re) now)"
    and "localOffset (fst (step fp c now re)) ! (2 * k + 1) =
           bounce_pos fp (localOffset (fst re) ! (2 * k + 1)) (mVy (fst re) ! (2 * k)) (frame_dt fp (fst re) now)"
    and "mVy (fst (step fp c now re)) ! (2 * k) =
           bounce_vel fp (localOffset (fst re) ! (2 * k + 1)) (mVy (fst re) ! (2 * k)) (frame_dt fp (fst re) now)"
proof -
  obtain r e where re: "re = (r, e)" by (cases re)
  from assms(1) have alloc: "allocated c r" by (simp add: re)
  from assms(2) have clock: "0 < mLastFrameNs r"
    by (simp add: re word_greater_zero_iff)
  have j0: "2 * k < 2 * MAX_INSTANCES_ITEM c" and j1: "2 * k + 1 < 2 * MAX_INSTANCES_ITEM c"
    using assms(3) by simp_all
  have r': "fst (step fp c now (r, e)) = (step_loop fp c (frame_dt fp r now) 0 r)\<lparr>mLastFrameNs := nowNs now\<rparr>"
    using clock by (simp add: step_def Let_def)
  show "localOffset (fst (step fp c now re)) ! (2 * k) =
           bounce_pos fp (localOffset (fst re) ! (2 * k)) (mVx (fst re) ! (2 * k)) (frame_dt fp (fst re) now)"
    and "mVx (fst (step fp c now re)) ! (2 * k) =
           bounce_vel fp (localOffset (fst re) ! (2 * k)) (mVx (fst re) ! (2 * k)) (frame_dt fp (fst re) now)"
    and "mVy (fst (step fp c now re)) ! (2 * k) =
           bounce_vel fp (localOffset (fst re) ! (2 * k + 1)) (mVy (fst re) ! (2 * k)) (frame_dt fp (fst re) now)"
    using step_loop_nth [OF alloc _ j0, of 0 fp "frame_dt fp r now"] by (simp_all add: r' re)
  show "localOffset (fst (step fp c now re)) ! (2 * k + 1) =
           bounce_pos fp (localOffset (fst re) ! (2 * k + 1)) (mVy (fst re) ! (2 * k)) (frame_dt fp (fst re) now)"
    using step_loop_nth [OF alloc _ j1, of 0 fp "frame_dt fp r now"] by (simp add: r' re)
qed



subsection \<open>Positions stay in the box while frames are short\<close>

lemma scaled_speed_le_10:
  assumes "\<bar>v\<bar> \<le> 5" "0 \<le> dt" "dt \<le> 2"
  shows "\<bar>v * dt\<bar> \<le> (10::real)"
proof -
  have "\<bar>v\<bar> * dt \<le> 5 * 2"
    using assms by (intro mult_mono) auto
  then show ?thesis
    using assms by (simp add: abs_mult)
qed

lemma tenth_bounds: "0 < rne binary64 0.1" "rne binary64 0.1 \<le> 1"
  by (simp_all add: binary64_tenth)

text \<open>With velocities up to 5 and frames up to 2 seconds one increment is at most 1.\<close>

lemma ieee_increment_le_1:
  assumes "\<bar>v\<bar> \<le> 5" "0 \<le> dt" "dt \<le> 2"
  shows "- 1 \<le> rne binary64 (rne binary32 (v * dt) * rne binary64 0.1) \<and>
         rne binary64 (rne binary32 (v * dt) * rne binary64 0.1) \<le> 1"
proof -
  define c where "c = rne binary64 0.1"
  have c: "c = 3602879701896397 / 36028797018963968"
    by (simp add: c_def binary64_tenth)
  have cpos: "0 \<le> c" by (simp add: c)
  have top: "rne binary64 (10 * c) = 1"
    using binary64_at [of 0 "18014398509481985 / 18014398509481984"]
    by (simp add: c round_even_def)
  then have bot: "rne binary64 (- 10 * c) = - 1"
    using rne_minus [of binary64 "10 * c"] by simp
  from scaled_speed_le_10 [OF assms] have "- 10 \<le> v * dt" "v * dt \<le> 10"
    by (simp_all add: abs_le_iff)
  then have p: "- 10 \<le> rne binary32 (v * dt) \<and> rne binary32 (v * dt) \<le> 10"
    by (intro binary32_between) (simp_all add: rne_minus binary32_consts)
  with cpos have "- 10 * c \<le> rne binary32 (v * dt) * c" "rne binary32 (v * dt) * c \<le> 10 * c"
    using mult_right_mono [of "- 10" "rne binary32 (v * dt)" c]
      mult_right_mono [of "rne binary32 (v * dt)" 10 c]
    by simp_all
  then have "rne binary64 (- 10 * c) \<le> rne binary64 (rne binary32 (v * dt) * c)"
    "rne binary64 (rne binary32 (v * dt) * c) \<le> rne binary64 (10 * c)"
    by (simp_all only: binary64_mono)
  then have "- 1 \<le> rne binary64 (rne binary32 (v * dt) * c) \<and>
             rne binary64 (rne binary32 (v * dt) * c) \<le> 1"
    by (simp only: top bot)
  then show ?thesis
    by (simp only: c_def)
qed

text \<open>
  An increment of at most \<open>2 powi (- 24) + 2 powi (- 53)\<close> does not take a position from
  \<open>[-1, 1]\<close> above 1: the sum rounds back to 1.
\<close>

lemma ieee_small_increment:
  assumes "x \<le> 1" "q \<le> 536870913 / 9007199254740992"
  shows "rne binary32 (rne binary64 (x + q)) \<le> 1"
proof -
  have a: "rne binary64 (9007199791611905 / 9007199254740992) = 16777217 / 16777216"
    using binary64_at [of 0 "9007199791611905 / 9007199254740992"] by (simp add: round_even_def)
  have b: "rne binary32 (16777217 / 16777216) = 1"
    using binary32_at [of 0 "16777217 / 16777216"] by (simp add: round_even_def)
  from assms have "x + q \<le> 9007199791611905 / 9007199254740992" by simp
  then have "rne binary64 (x + q) \<le> rne binary64 (9007199791611905 / 9007199254740992)"
    by (rule binary64_mono)
  then have "rne binary64 (x + q) \<le> 16777217 / 16777216"
    by (simp only: a)
  then have "rne binary32 (rne binary64 (x + q)) \<le> rne binary32 (16777217 / 16777216)"
    by (rule binary32_mono)
  then show ?thesis by (simp only: b)
qed

text \<open>The two roundings of a sum in \<open>[1, 2]\<close> add at most \<open>2 powi (- 24) + 2 powi (- 53)\<close>.\<close>

lemma ieee_sum_error:
  assumes "0 \<le> q" "q \<le> 1"
  shows "rne binary32 (rne binary64 (1 + q)) \<le> 1 + q + 536870913 / 9007199254740992"
proof (cases "q = 1")
  case True
  then show ?thesis by (simp add: binary32_consts binary64_consts)
next
  case False
  define y where "y = 1 + q"
  define s where "s = rne binary64 y"
  from False assms have y: "1 \<le> y" "y < 2" by (simp_all add: y_def)
  then have "\<bar>y\<bar> < 2 powi (0 + 1)" by simp
  from rne_error_below [of binary64 0 y, OF _ this]
  have "\<bar>s - y\<bar> \<le> 2 powi (- 53)" by (simp add: s_def)
  also have "(2::real) powi (- 53) = 1 / 9007199254740992" by simp
  finally have e1: "s \<le> y + 1 / 9007199254740992" by linarith
  from y have s: "1 \<le> s \<and> s \<le> 2"
    unfolding s_def by (intro binary64_between) (simp_all add: binary64_consts)
  have "rne binary32 s \<le> s + 1 / 16777216"
  proof (cases "s = 2")
    case True
    then show ?thesis by (simp add: binary32_consts)
  next
    case False
    with s have "\<bar>s\<bar> < 2 powi (0 + 1)" by simp
    from rne_error_below [of binary32 0 s, OF _ this]
    have "\<bar>rne binary32 s - s\<bar> \<le> 2 powi (- 24)" by simp
    also have "(2::real) powi (- 24) = 1 / 16777216" by simp
    finally show ?thesis by linarith
  qed
  with e1 show ?thesis
    by (simp add: s_def y_def)
qed

text \<open>
  When the increment is large enough to take a position above 1, both factors are normal
  numbers, and doubling the velocity doubles the increment exactly.
\<close>

lemma ieee_double_increment:
  assumes v: "\<bar>v\<bar> \<le> 5" "rne binary32 v = v" and dt: "0 \<le> dt" "dt \<le> 2"
    and q: "536870913 / 9007199254740992 < rne binary64 (rne binary32 (v * dt) * rne binary64 0.1)"
  shows "rne binary64 (rne binary32 (rne binary32 (rne binary32 2 * v) * dt) * rne binary64 0.1) =
         2 * rne binary64 (rne binary32 (v * dt) * rne binary64 0.1)"
proof -
  define c where "c = rne binary64 0.1"
  define p where "p = rne binary32 (v * dt)"
  have c: "0 < c" "c \<le> 1" using tenth_bounds by (simp_all add: c_def)
  have pc: "1 / 2 ^ 26 < p * c"
  proof (rule ccontr)
    assume "\<not> 1 / 2 ^ 26 < p * c"
    then have "p * c \<le> 1 / 2 ^ 26" by simp
    then have "rne binary64 (p * c) \<le> rne binary64 (1 / 2 ^ 26)" by (rule binary64_mono)
    also have "rne binary64 (1 / 2 ^ 26) = 1 / 2 ^ 26"
      using binary64_float [of "1 / 2 ^ 26" 1 "- 26"] by simp
    finally show False using q by (simp add: p_def c_def)
  qed
  have "0 < p * c" using pc by (rule less_trans [rotated]) simp
  then have ppos: "0 < p" using c(1) by (simp add: zero_less_mult_iff)
  then have "p * c \<le> p * 1" using c(2) by (intro mult_left_mono) simp_all
  with pc have p: "1 / 2 ^ 26 < p" by simp
  have vdt: "1 / 2 ^ 27 < v * dt"
  proof (rule ccontr)
    assume "\<not> 1 / 2 ^ 27 < v * dt"
    then have "v * dt \<le> 1 / 2 ^ 27" by simp
    then have "rne binary32 (v * dt) \<le> rne binary32 (1 / 2 ^ 27)" by (rule binary32_mono)
    also have "rne binary32 (1 / 2 ^ 27) = 1 / 2 ^ 27"
      using binary32_float [of "1 / 2 ^ 27" 1 "- 27"] by simp
    finally show False using p by (simp add: p_def)
  qed
  have vpos: "1 / 2 ^ 28 < v"
  proof (rule ccontr)
    assume "\<not> 1 / 2 ^ 28 < v"
    then have "v \<le> 1 / 2 ^ 28" by simp
    then have "v * dt \<le> 1 / 2 ^ 28 * dt" using dt(1) by (rule mult_right_mono)
    also have "\<dots> \<le> 1 / 2 ^ 28 * 2" using dt(2) by (intro mult_left_mono) simp_all
    finally show False using vdt by simp
  qed
  have small: "(1::real) / 2 ^ 100 \<le> 1 / 2 ^ 28" by simp
  have big: "(10::real) \<le> 2 ^ 100" by simp
  have "rne binary32 (2 * v) = 2 * rne binary32 v"
    using vpos v(1) small by (intro binary32_double) simp_all
  then have two_v: "rne binary32 (rne binary32 2 * v) = 2 * v"
    by (simp add: v(2) binary32_consts)
  have "rne binary32 (2 * (v * dt)) = 2 * rne binary32 (v * dt)"
    using vdt scaled_speed_le_10 [OF v(1) dt] small by (intro binary32_double) simp_all
  then have two_p: "rne binary32 (2 * v * dt) = 2 * p"
    by (simp add: p_def mult.assoc)
  have "p \<le> 10"
    unfolding p_def using scaled_speed_le_10 [OF v(1) dt] binary32_mono [of "v * dt" 10]
    by (simp add: binary32_consts abs_le_iff)
  then have "p * c \<le> 10 * 1" using c ppos by (intro mult_mono) simp_all
  then have "rne binary64 (2 * (p * c)) = 2 * rne binary64 (p * c)"
    using pc small by (intro binary64_double) simp_all
  then have "rne binary64 (2 * p * c) = 2 * rne binary64 (p * c)"
    by (simp add: mult.assoc)
  then show ?thesis
    by (simp only: two_v two_p p_def [symmetric] c_def [symmetric])
qed

lemma moved_ieee:
  "moved ieee x v dt = rne binary32 (rne binary64 (x + rne binary64 (rne binary32 (v * dt) * rne binary64 0.1)))"
  by (simp only: moved_def ieee_f32 ieee_f64)

lemma bounced_ieee:
  "bounced ieee m v dt =
   rne binary32 (rne binary64 (m - rne binary64 (rne binary32 (rne binary32 (rne binary32 2 * v) * dt) * rne binary64 0.1)))"
  by (simp only: bounced_def ieee_f32 ieee_f64)

text \<open>The bounce branch on the upper side: the position comes back into \<open>[-1, 1]\<close>.\<close>

lemma ieee_bounce_high:
  assumes x: "x \<le> 1" and v: "\<bar>v\<bar> \<le> 5" "rne binary32 v = v" and dt: "0 \<le> dt" "dt \<le> 2"
    and hi: "1 < moved ieee x v dt"
  shows "- 1 \<le> bounced ieee (moved ieee x v dt) v dt \<and> bounced ieee (moved ieee x v dt) v dt \<le> 1"
proof -
  define q where "q = rne binary64 (rne binary32 (v * dt) * rne binary64 0.1)"
  define m where "m = moved ieee x v dt"
  have m: "m = rne binary32 (rne binary64 (x + q))"
    by (simp only: m_def moved_ieee q_def)
  from ieee_increment_le_1 [OF v(1) dt] have q1: "q \<le> 1"
    by (simp only: q_def)
  have qlow: "536870913 / 9007199254740992 < q"
  proof (rule ccontr)
    assume "\<not> 536870913 / 9007199254740992 < q"
    then have "q \<le> 536870913 / 9007199254740992" by simp
    from ieee_small_increment [OF x this] hi show False
      by (simp add: m_def [symmetric] m)
  qed
  then have q0: "0 \<le> q" by simp
  from ieee_double_increment [OF v dt] qlow
  have "rne binary64 (rne binary32 (rne binary32 (rne binary32 2 * v) * dt) * rne binary64 0.1) = 2 * q"
    by (simp only: q_def)
  then have b: "bounced ieee m v dt = rne binary32 (rne binary64 (m - 2 * q))"
    by (simp only: bounced_ieee)
  from x have "x + q \<le> 1 + q" by simp
  then have "rne binary64 (x + q) \<le> rne binary64 (1 + q)" by (rule binary64_mono)
  then have "m \<le> rne binary32 (rne binary64 (1 + q))"
    unfolding m by (rule binary32_mono)
  also have "\<dots> \<le> 1 + q + 536870913 / 9007199254740992"
    using q0 q1 by (rule ieee_sum_error)
  finally have "m - 2 * q \<le> 1" using qlow by simp
  moreover have "- 1 \<le> m - 2 * q" using hi q1 by (simp add: m_def)
  ultimately have "- 1 \<le> rne binary64 (m - 2 * q) \<and> rne binary64 (m - 2 * q) \<le> 1"
    by (intro binary64_between) (simp_all add: rne_minus binary64_consts)
  then have "- 1 \<le> rne binary32 (rne binary64 (m - 2 * q)) \<and> rne binary32 (rne binary64 (m - 2 * q)) \<le> 1"
    by (intro binary32_between) (simp_all add: rne_minus binary32_consts)
  then show ?thesis
    by (simp only: b m_def [symmetric])
qed

text \<open>Mirroring the position and the velocity mirrors the results.\<close>

lemma moved_mirror: "moved ieee (- x) (- v) dt = - moved ieee x v dt"
proof -
  define q where "q = rne binary64 (rne binary32 (v * dt) * rne binary64 0.1)"
  have "rne binary64 (rne binary32 (- v * dt) * rne binary64 0.1) = - q"
    by (simp add: q_def rne_minus)
  then have "moved ieee (- x) (- v) dt = rne binary32 (rne binary64 (- x + - q))"
    by (simp only: moved_ieee)
  also have "- x + - q = - (x + q)" by simp
  finally show ?thesis
    by (simp only: rne_minus moved_ieee q_def)
qed

lemma bounced_mirror: "bounced ieee (- m) (- v) dt = - bounced ieee m v dt"
proof -
  define b where "b = rne binary64 (rne binary32 (rne binary32 (rne binary32 2 * v) * dt) * rne binary64 0.1)"
  have "rne binary64 (rne binary32 (rne binary32 (rne binary32 2 * - v) * dt) * rne binary64 0.1) = - b"
    by (simp add: b_def rne_minus)
  then have "bounced ieee (- m) (- v) dt = rne binary32 (rne binary64 (- m - - b))"
    by (simp only: bounced_ieee)
  also have "- m - - b = - (m - b)" by simp
  finally show ?thesis
    by (simp only: rne_minus bounced_ieee b_def)
qed

lemma ieee_bounce_in_box:
  assumes x: "- 1 \<le> x" "x \<le> 1" and v: "\<bar>v\<bar> \<le> 5" "rne binary32 v = v" and dt: "0 \<le> dt" "dt \<le> 2"
  shows "- 1 \<le> bounce_pos ieee x v dt \<and> bounce_pos ieee x v dt \<le> 1"
proof -
  consider "1 < moved ieee x v dt" | "moved ieee x v dt < - 1"
    | "- 1 \<le> moved ieee x v dt" "moved ieee x v dt \<le> 1"
    by linarith
  then show ?thesis
  proof cases
    case 1
    with ieee_bounce_high [OF x(2) v dt] show ?thesis
      by (simp add: bounce_pos_def)
  next
    case 2
    then have hi: "1 < moved ieee (- x) (- v) dt"
      by (simp add: moved_mirror)
    from x(1) have x': "- x \<le> 1" by simp
    from v have v': "\<bar>- v\<bar> \<le> 5" "rne binary32 (- v) = - v"
      by (simp_all add: rne_minus)
    from ieee_bounce_high [OF x' v' dt hi]
    have "- 1 \<le> bounced ieee (moved ieee x v dt) v dt \<and> bounced ieee (moved ieee x v dt) v dt \<le> 1"
      by (simp add: moved_mirror bounced_mirror)
    with 2 show ?thesis
      by (simp add: bounce_pos_def)
  next
    case 3
    then show ?thesis
      by (simp add: bounce_pos_def)
  qed
qed

lemma exact_bounce_in_box:
  assumes "- 1 \<le> x" "x \<le> 1" "\<bar>v\<bar> \<le> 5" "0 \<le> dt" "dt \<le> 2"
  shows "- 1 \<le> bounce_pos exact x v dt \<and> bounce_pos exact x v dt \<le> 1"
proof -
  define m where "m = v * dt * 0.1"
  have "\<bar>v * dt\<bar> \<le> 10"
    using assms(3-5) by (rule scaled_speed_le_10)
  then have "\<bar>m\<bar> \<le> 1"
    by (simp add: m_def abs_mult)
  moreover have "bounce_pos exact x v dt = (if x + m > 1 \<or> x + m < - 1 then x + m - 2 * m else x + m)"
    by (simp add: bounce_pos_def moved_def bounced_def m_def)
  ultimately show ?thesis
    using assms(1,2) by auto
qed

lemma bounce_pos_in_box:
  assumes "fp = ieee \<or> fp = exact"
    and "- 1 \<le> x" "x \<le> 1" "\<bar>v\<bar> \<le> 5" "f32 fp v = v" "0 \<le> dt" "dt \<le> 2"
  shows "- 1 \<le> bounce_pos fp x v dt \<and> bounce_pos fp x v dt \<le> 1"
  using assms(1)
proof
  assume "fp = ieee"
  with assms(2-) ieee_bounce_in_box [of x v dt] show ?thesis by simp
next
  assume "fp = exact"
  with assms(2-) exact_bounce_in_box [of x v dt] show ?thesis by simp
qed

lemma bounce_vel_abs: "\<bar>bounce_vel fp x v dt\<bar> = \<bar>v\<bar>"
  by (simp add: bounce_vel_def)

lemma bounce_vel_float:
  assumes "fp = ieee \<or> fp = exact" "f32 fp v = v"
  shows "f32 fp (bounce_vel fp x v dt) = bounce_vel fp x v dt"
  using assms by (auto simp: bounce_vel_def rne_minus)

lemma list_all_update: "list_all P xs \<Longrightarrow> P v \<Longrightarrow> list_all P (xs[i := v])"
  by (auto simp: list_all_iff dest: set_update_subset_insert [THEN subsetD])

lemma step_body_in_box:
  assumes fp: "fp = ieee \<or> fp = exact"
    and box: "in_box fp r" and i: "i + 1 < length (localOffset r)" and dt: "0 \<le> dt" "dt \<le> 2"
  shows "in_box fp (step_body fp dt i r) \<and>
         length (localOffset (step_body fp dt i r)) = length (localOffset r)"
proof -
  from box have lens: "length (mVx r) = length (localOffset r)" "length (mVy r) = length (localOffset r)"
    and off: "list_all (\<lambda>x. - 1 \<le> x \<and> x \<le> 1) (localOffset r)"
    and vx: "list_all (\<lambda>v. \<bar>v\<bar> \<le> 5 \<and> f32 fp v = v) (mVx r)"
    and vy: "list_all (\<lambda>v. \<bar>v\<bar> \<le> 5 \<and> f32 fp v = v) (mVy r)"
    by (simp_all add: in_box_def)
  from i lens have i: "i + 1 < length (localOffset r)" "i < length (localOffset r)"
      "i < length (mVx r)" "i < length (mVy r)"
    by simp_all
  note F = step_body_fields [OF i(1) i(3) i(4), of fp dt]
  have x0: "- 1 \<le> localOffset r ! i" "localOffset r ! i \<le> 1"
    using off i(2) by (simp_all add: list_all_length)
  have x1: "- 1 \<le> localOffset r ! (i + 1)" "localOffset r ! (i + 1) \<le> 1"
    using off i(1) by (simp_all add: list_all_length)
  have v0: "\<bar>mVx r ! i\<bar> \<le> 5" "f32 fp (mVx r ! i) = mVx r ! i"
    using vx i(3) by (simp_all add: list_all_length)
  have v1: "\<bar>mVy r ! i\<bar> \<le> 5" "f32 fp (mVy r ! i) = mVy r ! i"
    using vy i(4) by (simp_all add: list_all_length)
  note b0 = bounce_pos_in_box [OF fp x0 v0 dt]
  note b1 = bounce_pos_in_box [OF fp x1 v1 dt]
  have "list_all (\<lambda>x. - 1 \<le> x \<and> x \<le> 1) (localOffset (step_body fp dt i r))"
    unfolding F using off b0 b1 by (intro list_all_update) simp_all
  moreover have "list_all (\<lambda>v. \<bar>v\<bar> \<le> 5 \<and> f32 fp v = v) (mVx (step_body fp dt i r))"
    unfolding F using vx v0 bounce_vel_float [OF fp v0(2)]
    by (intro list_all_update) (simp_all add: bounce_vel_abs)
  moreover have "list_all (\<lambda>v. \<bar>v\<bar> \<le> 5 \<and> f32 fp v = v) (mVy (step_body fp dt i r))"
    unfolding F using vy v1 bounce_vel_float [OF fp v1(2)]
    by (intro list_all_update) (simp_all add: bounce_vel_abs)
  ultimately show ?thesis
    using lens by (simp add: in_box_def F)
qed

lemma step_loop_in_box:
  "fp = ieee \<or> fp = exact \<Longrightarrow> in_box fp r \<Longrightarrow>
   length (localOffset r) = 2 * MAX_INSTANCES_ITEM c \<Longrightarrow> 0 \<le> dt \<Longrightarrow> dt \<le> 2 \<Longrightarrow>
   in_box fp (step_loop fp c dt i r) \<and>
   length (localOffset (step_loop fp c dt i r)) = 2 * MAX_INSTANCES_ITEM c"
proof (induction fp c dt i r rule: step_loop.induct)
  case (1 fp c dt i r)
  show ?case
  proof (cases "int i < 2 * int (MAX_INSTANCES_ITEM c) - 1")
    case True
    then have "i + 1 < length (localOffset r)"
      using 1(4) by simp
    from step_body_in_box [OF 1(2) 1(3) this 1(5) 1(6)] 1(4)
    have "in_box fp (step_body fp dt i r)"
      "length (localOffset (step_body fp dt i r)) = 2 * MAX_INSTANCES_ITEM c"
      by simp_all
    from 1(1) [OF True 1(2) this 1(5) 1(6)] True show ?thesis
      by (simp add: step_loop.simps [of fp c dt i r])
  next
    case False
    with 1(3,4) show ?thesis by (simp add: step_loop.simps [of fp c dt i r])
  qed
qed

lemma step_in_box:
  assumes fp: "fp = ieee \<or> fp = exact"
    and "in_box fp (fst re)" "length (localOffset (fst re)) = 2 * MAX_INSTANCES_ITEM c"
    and "mLastFrameNs (fst re) = 0 \<or> frame_dt fp (fst re) now \<le> 2"
  shows "in_box fp (fst (step fp c now re)) \<and>
         length (localOffset (fst (step fp c now re))) = 2 * MAX_INSTANCES_ITEM c"
proof (cases re)
  case (Pair r e)
  show ?thesis
  proof (cases "mLastFrameNs r > 0")
    case True
    then have "frame_dt fp r now \<le> 2"
      using assms(4) Pair by auto
    from step_loop_in_box [where c = c and i = 0 and r = r, OF fp _ _ frame_dt_nonneg [OF fp] this]
      assms(2,3) Pair
    have "in_box fp (step_loop fp c (frame_dt fp r now) 0 r) \<and>
          length (localOffset (step_loop fp c (frame_dt fp r now) 0 r)) = 2 * MAX_INSTANCES_ITEM c"
      by simp
    then show ?thesis
      using True Pair by (simp add: step_def Let_def in_box_def)
  next
    case False
    then show ?thesis
      using assms(2,3) Pair by (simp add: step_def in_box_def)
  qed
qed

lemma steps_in_box:
  "fp = ieee \<or> fp = exact \<Longrightarrow> in_box fp (fst re) \<Longrightarrow>
   length (localOffset (fst re)) = 2 * MAX_INSTANCES_ITEM c \<Longrightarrow>
   frames_within 2 fp c ts re \<Longrightarrow>
   in_box fp (fst (steps fp c ts re)) \<and>
   length (localOffset (fst (steps fp c ts re))) = 2 * MAX_INSTANCES_ITEM c"
proof (induction ts arbitrary: re)
  case Nil
  then show ?case by simp
next
  case (Cons now ts)
  from Cons.prems(4) have gap: "mLastFrameNs (fst re) = 0 \<or> frame_dt fp (fst re) now \<le> 2"
    and rest: "frames_within 2 fp c ts (step fp c now re)"
    by simp_all
  from step_in_box [OF Cons.prems(1,2,3) gap]
  have "in_box fp (fst (step fp c now re))"
    "length (localOffset (fst (step fp c now re))) = 2 * MAX_INSTANCES_ITEM c"
    by simp_all
  from Cons.IH [OF Cons.prems(1) this rest] show ?case by simp
qed

lemma f32_idem: "fp = ieee \<or> fp = exact \<Longrightarrow> f32 fp (f32 fp y) = f32 fp y"
  by (auto simp: binary32_idem)

lemma resize_in_box:
  assumes d: "\<forall>k. 0 \<le> d k \<and> d k < 1" and fp: "fp = ieee \<or> fp = exact"
  shows "in_box fp (fst (resize fp c d g w h re))"
proof -
  let ?r = "fst (resize fp c d g w h re)"
  note two = f32_two [OF fp]
  have range: "- 1 \<le> f32 fp (f64 fp (f64 fp (d k - 0.5) * 2)) \<and>
               f32 fp (f64 fp (f64 fp (d k - 0.5) * 2)) \<le> 1 \<and>
               \<bar>f32 fp (f64 fp (f64 fp (d k - 0.5) * 10))\<bar> \<le> 5" for k
    using seed_range [OF fp, of "d k"] d [rule_format, of k] by (simp add: abs_le_iff)
  have "- 1 \<le> localOffset ?r ! j \<and> localOffset ?r ! j \<le> 1 \<and>
        (\<bar>mVx ?r ! j\<bar> \<le> 5 \<and> f32 fp (mVx ?r ! j) = mVx ?r ! j) \<and>
        (\<bar>mVy ?r ! j\<bar> \<le> 5 \<and> f32 fp (mVy ?r ! j) = mVy ?r ! j)"
    if "j < MAX_INSTANCES_ITEM c * 2" for j
    using range [of "3 * j"] range [of "3 * j + 1"] range [of "3 * j + 2"]
    by (simp only: resize_nth [OF that] two f32_idem [OF fp])
  then show ?thesis
    using resize_lengths [of fp c d g w h re]
    by (simp add: in_box_def list_all_length)
qed

text \<open>
  Claim C1, as amended. After a \<^verbatim>\<open>resize()\<close> (with \<^verbatim>\<open>drand48()\<close> in \<open>[0, 1)\<close>) and any
  run of \<^verbatim>\<open>step()\<close> calls in which no frame time \<open>dt\<close> exceeds 2 seconds, every position
  component is in \<open>[-1, 1]\<close>. This holds in the binary32/binary64 arithmetic of the code
  and in exact arithmetic.
\<close>

theorem offsets_stay_in_box:
  assumes "\<forall>k. 0 \<le> d k \<and> d k < 1"
    and "fp = ieee \<or> fp = exact"
    and "frames_within 2 fp c ts (resize fp c d junk w h re)"
  shows "length (localOffset (fst (steps fp c ts (resize fp c d junk w h re)))) = 2 * MAX_INSTANCES_ITEM c \<and>
         (\<forall>j < 2 * MAX_INSTANCES_ITEM c.
            - 1 \<le> localOffset (fst (steps fp c ts (resize fp c d junk w h re))) ! j \<and>
            localOffset (fst (steps fp c ts (resize fp c d junk w h re))) ! j \<le> 1)"
proof -
  have "length (localOffset (fst (resize fp c d junk w h re))) = 2 * MAX_INSTANCES_ITEM c"
    using resize_lengths [of fp c d junk w h re] by simp
  from steps_in_box [OF assms(2) resize_in_box [OF assms(1,2)] this assms(3)]
  show ?thesis
    by (simp add: in_box_def list_all_length)
qed

theorem offsets_stay_in_box_witness:
  "(\<forall>k. 0 \<le> tenths k \<and> tenths k < 1) \<and> (ieee = ieee \<or> ieee = exact) \<and>
   frames_within 2 ieee one_quad [at_time 1 0, at_time 2 0, at_time 3 500000000, at_time 5 0]
     (resize ieee one_quad tenths stale 1080 1920 (Renderer_ctor 1 2, no_env)) \<and>
   - 1 \<le> localOffset (fst (steps ieee one_quad [at_time 1 0, at_time 2 0, at_time 3 500000000, at_time 5 0]
            (resize ieee one_quad tenths stale 1080 1920 (Renderer_ctor 1 2, no_env)))) ! 0 \<and>
   localOffset (fst (steps ieee one_quad [at_time 1 0, at_time 2 0, at_time 3 500000000, at_time 5 0]
            (resize ieee one_quad tenths stale 1080 1920 (Renderer_ctor 1 2, no_env)))) ! 0 \<le> 1"
proof -
  let ?ts = "[at_time 1 0, at_time 2 0, at_time 3 500000000, at_time 5 0]"
  let ?re = "resize ieee one_quad tenths stale 1080 1920 (Renderer_ctor 1 2, no_env)"
  have d: "\<forall>k. 0 \<le> tenths k \<and> tenths k < 1"
    by (simp add: tenths_def)
  have u: "ieee = ieee \<or> ieee = exact" by simp
  have t1: "rne binary32 1000000000 = 1000000000"
    using binary32_at [of 29 1000000000] by (simp add: round_even_def)
  have t2: "rne binary32 (17592185546875 / 17592186044416) = 1"
    using binary32_at [of "- 1" "17592185546875 / 17592186044416"] by (simp add: round_even_def)
  have t3: "rne binary32 1500000000 = 1500000000"
    using binary32_at [of 30 1500000000] by (simp add: round_even_def)
  have t4: "rne binary32 (52776556640625 / 35184372088832) = 3 / 2"
    using binary32_at [of 0 "52776556640625 / 35184372088832"] by (simp add: round_even_def)
  have f: "frames_within 2 ieee one_quad ?ts ?re"
    by (simp add: step_mLastFrameNs resize_mLastFrameNs frame_dt_def nowNs_def at_time_def
        binary32_nano t1 t2 t3 t4)
  have n: "(0::nat) < 2 * MAX_INSTANCES_ITEM one_quad" by (simp add: one_quad_def)
  from offsets_stay_in_box [OF d u f] n
  have "- 1 \<le> localOffset (fst (steps ieee one_quad ?ts ?re)) ! 0 \<and>
        localOffset (fst (steps ieee one_quad ?ts ?re)) ! 0 \<le> 1"
    by blast
  with d f show ?thesis by simp
qed

text \<open>
  Claim C1 as stated fails for a long frame: the bounce branch does not clamp, it takes
  back the step and one more. From position \<open>1/2\<close> with velocity \<open>5/2\<close>, a frame of 100
  seconds ends at \<open>1/2 + 25 - 50 = -49/2\<close> in exact arithmetic and at
  \<open>- 12845055 / 2 ^ 19\<close> (about \<open>-24.499998\<close>) in \<^verbatim>\<open>float\<close> arithmetic, outside
  \<open>[-1 - \<epsilon>, 1 + \<epsilon>]\<close> even for \<open>\<epsilon> = 1\<close>.
\<close>

theorem long_frame_leaves_box:
  "localOffset (fst (steps ieee one_quad [at_time 1 0, at_time 101 0] (demo_scene ieee))) ! 0 =
     - (12845055 / 524288) \<and>
   \<not> (- 1 - 1 \<le> localOffset (fst (steps ieee one_quad [at_time 1 0, at_time 101 0] (demo_scene ieee))) ! 0 \<and>
      localOffset (fst (steps ieee one_quad [at_time 1 0, at_time 101 0] (demo_scene ieee))) ! 0 \<le> 1 + 1) \<and>
   localOffset (fst (steps exact one_quad [at_time 1 0, at_time 101 0] (demo_scene exact))) ! 0 = - 49 / 2 \<and>
   \<not> (- 1 - 1 \<le> localOffset (fst (steps exact one_quad [at_time 1 0, at_time 101 0] (demo_scene exact))) ! 0 \<and>
      localOffset (fst (steps exact one_quad [at_time 1 0, at_time 101 0] (demo_scene exact))) ! 0 \<le> 1 + 1)"
proof -
  have first: "steps fp one_quad [at_time 1 0, at_time 101 0] (demo_scene fp) =
        step fp one_quad (at_time 101 0) ((fst (demo_scene fp))\<lparr>mLastFrameNs := 1000000000\<rparr>, snd (demo_scene fp))"
    if "fp = ieee \<or> fp = exact" for fp
    using demo_scene_fields(4) [OF that]
    by (simp add: step_when_clock_zero nowNs_def at_time_def)
  have second: "localOffset (fst (steps fp one_quad [at_time 1 0, at_time 101 0] (demo_scene fp))) ! 0 =
        bounce_pos fp (1 / 2) (5 / 2) (f32 fp (f32 fp 100000000000 * f32 fp 0.000000001))"
    if fp: "fp = ieee \<or> fp = exact" for fp
  proof -
    let ?re = "((fst (demo_scene fp))\<lparr>mLastFrameNs := 1000000000\<rparr>, snd (demo_scene fp))"
    have a: "allocated one_quad (fst ?re)"
      using resize_allocated [of one_quad fp "\<lambda>k. 3 / 4" "\<lambda>k j. 99" 1080 1920 "(Renderer_ctor 1 2, no_env)"]
      by (simp add: demo_scene_def)
    have c: "mLastFrameNs (fst ?re) \<noteq> 0" by simp
    have k: "(0::nat) < MAX_INSTANCES_ITEM one_quad" by (simp add: one_quad_def)
    have dt: "frame_dt fp (fst ?re) (at_time 101 0) = f32 fp (f32 fp 100000000000 * f32 fp 0.000000001)"
      by (simp add: frame_dt_def nowNs_def at_time_def)
    from step_instance(1) [OF a c k, of fp "at_time 101 0"] show ?thesis
      by (simp only: first [OF fp] dt) (simp add: demo_scene_fields [OF fp])
  qed
  have h1: "rne binary32 100000000000 = 99999997952"
    using binary32_at [of 36 100000000000] by (simp add: round_even_def)
  have h2: "rne binary32 (109951157416169 / 1099511627776) = 13107199 / 131072"
    using binary32_at [of 6 "109951157416169 / 1099511627776"] by (simp add: round_even_def)
  have h3: "rne binary32 (65535995 / 262144) = 16383999 / 65536"
    using binary32_at [of 7 "65535995 / 262144"] by (simp add: round_even_def)
  have h4: "rne binary64 (59029577432990866551603 / 2361183241434822606848) = 7036873988269671 / 281474976710656"
    using binary64_at [of 4 "59029577432990866551603 / 2361183241434822606848"] by (simp add: round_even_def)
  have h5: "rne binary64 (7177611476624999 / 281474976710656) = 7177611476624999 / 281474976710656"
    using binary64_at [of 4 "7177611476624999 / 281474976710656"] by (simp add: round_even_def)
  have h6: "rne binary32 (7177611476624999 / 281474976710656) = 13369343 / 524288"
    using binary32_at [of 4 "7177611476624999 / 281474976710656"] by (simp add: round_even_def)
  have h7: "rne binary32 (65535995 / 131072) = 16383999 / 32768"
    using binary32_at [of 8 "65535995 / 131072"] by (simp add: round_even_def)
  have h8: "rne binary64 (59029577432990866551603 / 1180591620717411303424) = 7036873988269671 / 140737488355328"
    using binary64_at [of 5 "59029577432990866551603 / 1180591620717411303424"] by (simp add: round_even_def)
  have h9: "rne binary64 (3448068303644263 / 140737488355328) = 3448068303644263 / 140737488355328"
    using binary64_at [of 4 "3448068303644263 / 140737488355328"] by (simp add: round_even_def)
  have h10: "rne binary32 (3448068303644263 / 140737488355328) = 12845055 / 524288"
    using binary32_at [of 4 "3448068303644263 / 140737488355328"] by (simp add: round_even_def)
  have ui: "ieee = ieee \<or> ieee = exact" and ue: "exact = ieee \<or> exact = exact"
    by simp_all
  have i: "localOffset (fst (steps ieee one_quad [at_time 1 0, at_time 101 0] (demo_scene ieee))) ! 0 =
           - (12845055 / 524288)"
    by (simp only: second [OF ui])
      (simp add: bounce_pos_def moved_def bounced_def binary32_nano binary64_tenth
        binary32_consts rne_minus h1 h2 h3 h4 h5 h6 h7 h8 h9 h10)
  have e: "localOffset (fst (steps exact one_quad [at_time 1 0, at_time 101 0] (demo_scene exact))) ! 0 =
           - 49 / 2"
    by (simp only: second [OF ue])
      (simp add: bounce_pos_def moved_def bounced_def)
  show ?thesis
    unfolding i e by simp
qed

subsection \<open>Compiling a shader\<close>

lemma tables_raise [simp]:
  "shaders (raise_gl_error code e) = shaders e"
  "programs (raise_gl_error code e) = programs e"
  "logcat (raise_gl_error code e) = logcat e"
  by (simp_all add: raise_gl_error_def)

lemma tables_log [simp]:
  "shaders (log_print l e) = shaders e"
  "programs (log_print l e) = programs e"
  "logcat (log_print l e) = logcat e @ [l]"
  by (simp_all add: log_print_def)

lemma tables_check [simp]:
  "shaders (snd (checkGlError f e)) = shaders e"
  "programs (snd (checkGlError f e)) = programs e"
  by (simp_all add: checkGlError_def glGetError_def)

lemma is_attached_programs: "programs e' = programs e \<Longrightarrow> is_attached n e' = is_attached n e"
  by (simp add: is_attached_def)

lemma glDeleteShader_tables [simp]:
  "programs (glDeleteShader n e) = programs e"
  "logcat (glDeleteShader n e) = logcat e"
  by (simp_all add: glDeleteShader_def split: option.splits)

lemma glDeleteShader_zero [simp]: "glDeleteShader 0 e = e"
  by (simp add: glDeleteShader_def)

lemma compile_steps:
  assumes "newShaderName d e t \<noteq> 0"
  shows "glCompileShader d (newShaderName d e t)
           (glShaderSource (newShaderName d e t) src (snd (glCreateShader d t e))) =
         e\<lparr>shaders := AList.update (newShaderName d e t) (compiled_shader d t src) (shaders e)\<rparr>"
  using assms
  by (simp add: glCreateShader_def glShaderSource_def glCompileShader_def update_shader_def
      Let_def update_conv' compiled_shader_def)

lemma createShader_eq:
  "createShader d t src e =
     (if newShaderName d e t = 0
      then (0, snd (checkGlError ''glCreateShader'' (raise_gl_error (createError d) e)))
      else if fst (compileResult d t src)
      then (newShaderName d e t,
            e\<lparr>shaders := AList.update (newShaderName d e t) (compiled_shader d t src) (shaders e)\<rparr>)
      else (0, glDeleteShader (newShaderName d e t)
                 (e\<lparr>shaders := AList.update (newShaderName d e t) (compiled_shader d t src) (shaders e),
                    logcat := logcat e @ compile_log d t src\<rparr>)))"
proof (cases "newShaderName d e t = 0")
  case True
  then show ?thesis
    by (simp add: createShader_def glCreateShader_def Let_def)
next
  case False
  let ?n = "newShaderName d e t"
  let ?e3 = "e\<lparr>shaders := AList.update ?n (compiled_shader d t src) (shaders e)\<rparr>"
  have c: "glCreateShader d t e = (?n, snd (glCreateShader d t e))"
    using False by (simp add: glCreateShader_def Let_def)
  have look: "map_of (shaders ?e3) ?n = Some (compiled_shader d t src)"
    by (simp add: update_conv')
  have status: "glGetShaderiv_COMPILE_STATUS ?n ?e3 = fst (compileResult d t src)"
    by (simp add: glGetShaderiv_COMPILE_STATUS_def update_conv' compiled_shader_def)
  have len: "glGetShaderiv_INFO_LOG_LENGTH ?n ?e3 = info_log_length (snd (compileResult d t src))"
    by (simp add: glGetShaderiv_INFO_LOG_LENGTH_def update_conv' compiled_shader_def)
  have logtext: "glGetShaderInfoLog ?n (info_log_length (snd (compileResult d t src))) ?e3 =
              snd (compileResult d t src)"
    by (simp add: glGetShaderInfoLog_def update_conv' compiled_shader_def info_log_length_def)
  show ?thesis
    using False
    apply (simp only: createShader_def)
    apply (subst c)
    apply (simp only: prod.case if_False Let_def compile_steps [OF False] status len logtext)
    apply (simp add: compile_log_def info_log_length_def log_print_def)
    done
qed

text \<open>
  Claim C7, as amended. When the shader object could be created: if the source fails to
  compile, \<^verbatim>\<open>createShader\<close> returns 0 and logs the compiler's info log if that log is
  not empty (and the buffer for it could be allocated), and logs nothing otherwise; if the
  source compiles, it returns the nonzero shader name and logs nothing.
\<close>

theorem createShader_result:
  assumes "newShaderName d e t \<noteq> 0"
  shows "fst (createShader d t src e) = (if fst (compileResult d t src) then newShaderName d e t else 0) \<and>
         logcat (snd (createShader d t src e)) =
           logcat e @ (if fst (compileResult d t src) then [] else compile_log d t src)"
  using assms by (simp add: createShader_eq)

theorem createShader_result_witness:
  "newShaderName (demo_driver False) no_env GL_VERTEX_SHADER \<noteq> 0 \<and>
   fst (createShader (demo_driver False) GL_VERTEX_SHADER ''void main('' no_env) = 0 \<and>
   logcat (snd (createShader (demo_driver False) GL_VERTEX_SHADER ''void main('' no_env)) =
     [ALOGE ''Could not compile %s shader:\<newline>%s\<newline>'' [Str ''vertex'', Str ''syntax error'']]"
proof -
  have h: "newShaderName (demo_driver False) no_env GL_VERTEX_SHADER \<noteq> 0"
    by (simp add: demo_driver_def no_env_def next_name_def)
  from createShader_result [OF h, of "''void main(''"] h
  show ?thesis
    by (simp add: demo_driver_def no_env_def compile_log_def)
qed

text \<open>
  Claim C7 as stated fails for a driver that reports a failed compilation with an empty
  info log: \<^verbatim>\<open>createShader\<close> returns 0 and nothing reaches the log.
\<close>

theorem silent_compile_failure:
  "\<not> fst (compileResult (demo_driver True) GL_FRAGMENT_SHADER ''void main('') \<and>
   fst (createShader (demo_driver True) GL_FRAGMENT_SHADER ''void main('' no_env) = 0 \<and>
   logcat (snd (createShader (demo_driver True) GL_FRAGMENT_SHADER ''void main('' no_env)) = []"
  by (simp add: createShader_eq demo_driver_def no_env_def next_name_def compile_log_def)

subsection \<open>Linking a program\<close>

lemma glDeleteShader_unattached:
  assumes "n \<noteq> 0" "\<not> is_attached n e"
  shows "shaders (glDeleteShader n e) = AList.delete n (shaders e)"
proof (cases "map_of (shaders e) n")
  case None
  then have "n \<notin> fst ` set (shaders e)"
    by (simp add: map_of_eq_None_iff)
  then have "AList.delete n (shaders e) = shaders e"
    by (rule delete_id)
  with None assms show ?thesis
    by (simp add: glDeleteShader_def)
next
  case (Some s)
  with assms show ?thesis
    by (simp add: glDeleteShader_def)
qed

lemma not_attached_fresh:
  assumes "attachments_live e" "map_of (shaders e) n = None"
  shows "\<not> is_attached n e"
proof
  assume "is_attached n e"
  then obtain po where po: "po \<in> set (programs e)" "n \<in> set (attached (snd po))"
    by (auto simp: is_attached_def list_ex_iff)
  with assms(1) have "map_of (shaders e) n \<noteq> None"
    by (simp add: attachments_live_def list_all_iff)
  with assms(2) show False by simp
qed

lemma fresh_shader:
  "fresh_names d \<Longrightarrow> newShaderName d e t \<noteq> 0 \<Longrightarrow> map_of (shaders e) (newShaderName d e t) = None"
  by (auto simp: fresh_names_def)

lemma fresh_program:
  "fresh_names d \<Longrightarrow> newProgramName d e \<noteq> 0 \<Longrightarrow> map_of (programs e) (newProgramName d e) = None"
  by (auto simp: fresh_names_def)

lemma delete_fresh: "map_of al k = None \<Longrightarrow> AList.delete k al = al"
  by (simp add: map_of_eq_None_iff)

lemma delete_update_fresh: "map_of al k = None \<Longrightarrow> AList.delete k (AList.update k v al) = al"
  by (simp add: delete_update_same delete_fresh)

lemma attachments_live_grow:
  assumes "attachments_live e" "programs e' = programs e"
    and "\<And>n. map_of (shaders e) n \<noteq> None \<Longrightarrow> map_of (shaders e') n \<noteq> None"
  shows "attachments_live e'"
  using assms by (auto simp: attachments_live_def list_all_iff)

lemma createShader_failed:
  assumes "fresh_names d" "attachments_live e" "fst (createShader d t src e) = 0"
  shows "shaders (snd (createShader d t src e)) = shaders e \<and>
         programs (snd (createShader d t src e)) = programs e"
proof (cases "newShaderName d e t = 0")
  case True
  then show ?thesis by (simp add: createShader_eq)
next
  case False
  let ?n = "newShaderName d e t"
  let ?e4 = "e\<lparr>shaders := AList.update ?n (compiled_shader d t src) (shaders e),
               logcat := logcat e @ compile_log d t src\<rparr>"
  from assms(3) False have bad: "\<not> fst (compileResult d t src)"
    by (auto simp: createShader_eq split: if_splits)
  have fresh: "map_of (shaders e) ?n = None"
    using assms(1) False by (rule fresh_shader)
  have "\<not> is_attached ?n e"
    using assms(2) fresh by (rule not_attached_fresh)
  then have "\<not> is_attached ?n ?e4"
    by (simp add: is_attached_def)
  from glDeleteShader_unattached [OF False this]
  have "shaders (glDeleteShader ?n ?e4) = shaders e"
    by (simp add: delete_update_fresh [OF fresh])
  with False bad show ?thesis
    by (simp add: createShader_eq)
qed

lemma createShader_succeeded:
  assumes "fst (createShader d t src e) \<noteq> 0"
  shows "fst (createShader d t src e) = newShaderName d e t \<and>
         snd (createShader d t src e) =
           e\<lparr>shaders := AList.update (newShaderName d e t) (compiled_shader d t src) (shaders e)\<rparr>"
  using assms by (auto simp: createShader_eq split: if_splits)

lemma release_detached_unflagged:
  assumes "map_of (shaders e) n = Some s" "\<not> deleteFlag s"
  shows "release_detached n e = e"
  using assms by (simp add: release_detached_def)

lemma exit_two_fresh:
  assumes v: "v \<noteq> 0" "map_of al v = None"
    and f: "f \<noteq> 0" "map_of al f = None" "f \<noteq> v"
    and sh: "shaders e' = AList.update f fo (AList.update v vo al)"
    and na: "\<not> is_attached v e'" "\<not> is_attached f e'"
  shows "shaders (snd (createProgram_exit v f p e')) = al \<and>
         programs (snd (createProgram_exit v f p e')) = programs e' \<and>
         fst (createProgram_exit v f p e') = p"
proof -
  have s1: "shaders (glDeleteShader v e') = AList.update f fo al"
    using glDeleteShader_unattached [OF v(1) na(1)] f(3) v(2)
    by (simp add: sh delete_update delete_update_fresh)
  have "\<not> is_attached f (glDeleteShader v e')"
    using na(2) by (simp add: is_attached_def)
  from glDeleteShader_unattached [OF f(1) this]
  have "shaders (glDeleteShader f (glDeleteShader v e')) = al"
    using f(2) by (simp add: s1 delete_update_fresh)
  then show ?thesis
    by (simp add: createProgram_exit_def)
qed

lemma glAttachShader_ok:
  assumes "map_of (programs e) p = Some po" "map_of (shaders e) n = Some s" "n \<notin> set (attached po)"
  shows "glAttachShader p n e =
         e\<lparr>programs := AList.update p (po\<lparr>attached := attached po @ [n]\<rparr>) (programs e)\<rparr>"
  using assms by (simp add: glAttachShader_def)

lemma glLinkProgram_ok:
  assumes "map_of (programs e) p = Some po"
  shows "glLinkProgram d p e =
         e\<lparr>programs := AList.update p
              (po\<lparr>linked := fst (linkResult d (map (map_of (shaders e)) (attached po))),
                  programInfoLog := snd (linkResult d (map (map_of (shaders e)) (attached po)))\<rparr>)
              (programs e)\<rparr>"
  using assms by (simp add: glLinkProgram_def)

lemma next_name_fresh: "next_name tab = 0 \<or> map_of tab (next_name tab) = None"
proof (cases "length tab < 1000 \<and> list_all (\<lambda>p. unat (fst p) \<le> length tab) tab")
  case True
  then have len: "length tab < 1000" and all: "\<forall>p \<in> set tab. unat (fst p) \<le> length tab"
    by (simp_all add: list_all_iff)
  have "unat (of_nat (length tab) + 1 :: 32 word) = length tab + 1"
    using len by (simp add: unat_word_ariths unat_of_nat take_bit_nat_eq_self)
  then have "of_nat (length tab) + 1 \<notin> fst ` set tab"
    using all by fastforce
  with True show ?thesis
    by (simp add: next_name_def map_of_eq_None_iff)
next
  case False
  then show ?thesis by (auto simp: next_name_def)
qed

lemma demo_driver_fresh: "fresh_names (demo_driver q)"
  by (simp add: fresh_names_def demo_driver_def next_name_fresh)

text \<open>
  Claim C6. With a driver that hands out fresh names and a GL state whose attachments name
  live shaders, \<^verbatim>\<open>createProgram\<close> returns either a nonzero name of a program object
  whose link status is true, or 0; and when it returns 0 the shader table and the program
  table are what they were before the call: every shader and program object the call
  created has been deleted.
\<close>

theorem createProgram_result:
  assumes "fresh_names d" and "attachments_live e"
  shows "(fst (createProgram d vtxSrc fragSrc e) \<noteq> 0 \<and>
          glGetProgramiv_LINK_STATUS (fst (createProgram d vtxSrc fragSrc e))
            (snd (createProgram d vtxSrc fragSrc e))) \<or>
         (fst (createProgram d vtxSrc fragSrc e) = 0 \<and>
          shaders (snd (createProgram d vtxSrc fragSrc e)) = shaders e \<and>
          programs (snd (createProgram d vtxSrc fragSrc e)) = programs e)"
proof -
  obtain v e1 where V: "createShader d GL_VERTEX_SHADER vtxSrc e = (v, e1)"
    by (cases "createShader d GL_VERTEX_SHADER vtxSrc e")
  show ?thesis
  proof (cases "v = 0")
    case True
    with createShader_failed [OF assms, of GL_VERTEX_SHADER vtxSrc] V
    show ?thesis
      by (simp add: createProgram_def createProgram_exit_def)
  next
    case v0: False
    from createShader_succeeded [of d GL_VERTEX_SHADER vtxSrc e] V v0
    have vn: "v = newShaderName d e GL_VERTEX_SHADER"
      and e1: "e1 = e\<lparr>shaders := AList.update v (compiled_shader d GL_VERTEX_SHADER vtxSrc) (shaders e)\<rparr>"
      by simp_all
    let ?vo = "compiled_shader d GL_VERTEX_SHADER vtxSrc"
    have vfresh: "map_of (shaders e) v = None"
      using fresh_shader [OF assms(1), of e GL_VERTEX_SHADER] v0 vn by simp
    have live1: "attachments_live e1"
      using assms(2) by (rule attachments_live_grow) (simp_all add: e1 update_conv')
    have nav: "\<not> is_attached v e"
      using assms(2) vfresh by (rule not_attached_fresh)
    obtain f e2 where F: "createShader d GL_FRAGMENT_SHADER fragSrc e1 = (f, e2)"
      by (cases "createShader d GL_FRAGMENT_SHADER fragSrc e1")
    show ?thesis
    proof (cases "f = 0")
      case True
      from createShader_failed [OF assms(1) live1, of GL_FRAGMENT_SHADER fragSrc] F True
      have t2: "shaders e2 = shaders e1" "programs e2 = programs e1"
        by simp_all
      have "\<not> is_attached v e2"
        using nav by (simp add: is_attached_def t2 e1)
      from glDeleteShader_unattached [OF v0 this]
      have "shaders (glDeleteShader v e2) = shaders e"
        by (simp add: t2 e1 delete_update_fresh [OF vfresh])
      then show ?thesis
        using V F v0 True by (simp add: createProgram_def createProgram_exit_def t2 e1)
    next
      case f0: False
      from createShader_succeeded [of d GL_FRAGMENT_SHADER fragSrc e1] F f0
      have fn: "f = newShaderName d e1 GL_FRAGMENT_SHADER"
        and e2: "e2 = e1\<lparr>shaders := AList.update f (compiled_shader d GL_FRAGMENT_SHADER fragSrc) (shaders e1)\<rparr>"
        by simp_all
      let ?fo = "compiled_shader d GL_FRAGMENT_SHADER fragSrc"
      have "map_of (shaders e1) f = None"
        using fresh_shader [OF assms(1), of e1 GL_FRAGMENT_SHADER] f0 fn by simp
      then have fv: "f \<noteq> v" and ffresh: "map_of (shaders e) f = None"
        by (auto simp: e1 update_conv' split: if_splits)
      have sh2: "shaders e2 = AList.update f ?fo (AList.update v ?vo (shaders e))"
        and pr2: "programs e2 = programs e"
        by (simp_all add: e2 e1)
      have naf: "\<not> is_attached f e"
        using assms(2) ffresh by (rule not_attached_fresh)
      have look_v: "map_of (shaders e2) v = Some ?vo" and look_f: "map_of (shaders e2) f = Some ?fo"
        using fv by (simp_all add: sh2 update_conv')
      have unflagged: "\<not> deleteFlag ?vo" "\<not> deleteFlag ?fo"
        by (simp_all add: compiled_shader_def)
      obtain p e3 where P: "glCreateProgram d e2 = (p, e3)"
        by (cases "glCreateProgram d e2")
      show ?thesis
      proof (cases "p = 0")
        case True
        with P have e3: "e3 = raise_gl_error (createError d) e2"
          by (simp add: glCreateProgram_def Let_def split: if_splits)
        let ?e' = "snd (checkGlError ''glCreateProgram'' e3)"
        have "shaders ?e' = AList.update f ?fo (AList.update v ?vo (shaders e))" "programs ?e' = programs e"
          by (simp_all add: e3 sh2 pr2)
        moreover from this nav naf have "\<not> is_attached v ?e'" "\<not> is_attached f ?e'"
          by (simp_all add: is_attached_def)
        ultimately have "shaders (snd (createProgram_exit v f 0 ?e')) = shaders e \<and>
            programs (snd (createProgram_exit v f 0 ?e')) = programs e \<and>
            fst (createProgram_exit v f 0 ?e') = 0"
          using exit_two_fresh [OF v0 vfresh f0 ffresh fv, of ?e' ?fo ?vo 0] by simp
        then show ?thesis
          using V F P v0 f0 True by (simp add: createProgram_def)
      next
        case p0: False
        with P have pn: "p = newProgramName d e2"
          and e3: "e3 = e2\<lparr>programs := AList.update p \<lparr>attached = [], linked = False, programInfoLog = []\<rparr> (programs e2)\<rparr>"
          by (auto simp: glCreateProgram_def Let_def split: if_splits)
        have pfresh: "map_of (programs e) p = None"
          using fresh_program [OF assms(1), of e2] p0 pn by (simp add: pr2)
        let ?e4 = "glAttachShader p v e3"
        let ?e5 = "glAttachShader p f ?e4"
        let ?e6 = "glLinkProgram d p ?e5"
        define po6 where "po6 = \<lparr>attached = [v, f],
            linked = fst (linkResult d [Some ?vo, Some ?fo]),
            programInfoLog = snd (linkResult d [Some ?vo, Some ?fo])\<rparr>"
        have e4: "?e4 = e2\<lparr>programs := AList.update p \<lparr>attached = [v], linked = False, programInfoLog = []\<rparr> (programs e)\<rparr>"
          using look_v
          by (subst glAttachShader_ok [where po = "\<lparr>attached = [], linked = False, programInfoLog = []\<rparr>" and s = ?vo])
             (simp_all add: e3 update_conv' pr2 update_last)
        have e5: "?e5 = e2\<lparr>programs := AList.update p \<lparr>attached = [v, f], linked = False, programInfoLog = []\<rparr> (programs e)\<rparr>"
          unfolding e4 using look_f fv
          by (subst glAttachShader_ok [where po = "\<lparr>attached = [v], linked = False, programInfoLog = []\<rparr>" and s = ?fo])
             (simp_all add: update_conv' update_last)
        have e6: "?e6 = e2\<lparr>programs := AList.update p po6 (programs e)\<rparr>"
          unfolding e5 using look_v look_f
          by (subst glLinkProgram_ok [where po = "\<lparr>attached = [v, f], linked = False, programInfoLog = []\<rparr>"])
             (simp_all add: update_conv' update_last po6_def)
        have status: "glGetProgramiv_LINK_STATUS p ?e6 = fst (linkResult d [Some ?vo, Some ?fo])"
          by (simp add: glGetProgramiv_LINK_STATUS_def e6 update_conv' po6_def)
        show ?thesis
        proof (cases "fst (linkResult d [Some ?vo, Some ?fo])")
          case True
          have "glGetProgramiv_LINK_STATUS p (snd (createProgram_exit v f p ?e6))"
            using True status
            by (simp add: createProgram_exit_def glGetProgramiv_LINK_STATUS_def)
          moreover have "createProgram d vtxSrc fragSrc e = createProgram_exit v f p ?e6"
            using V F P v0 f0 p0 True status by (simp add: createProgram_def Let_def)
          ultimately show ?thesis
            using p0 by (simp add: createProgram_exit_def)
        next
          case False
          let ?e7 = "log_print (ALOGE ''Could not link program'' []) ?e6"
          define e8 where "e8 =
            (if glGetProgramiv_INFO_LOG_LENGTH p ?e7 \<noteq> 0
             then (if mallocOk d (glGetProgramiv_INFO_LOG_LENGTH p ?e7)
                   then log_print (ALOGE ''Could not link program:\<newline>%s\<newline>''
                          [Str (glGetProgramInfoLog p (glGetProgramiv_INFO_LOG_LENGTH p ?e7) ?e7)]) ?e7
                   else ?e7)
             else ?e7)"
          have t8: "shaders e8 = shaders e2" "programs e8 = AList.update p po6 (programs e)"
            by (simp_all add: e8_def e6)
          let ?e9 = "glDeleteProgram p e8"
          let ?mid = "e8\<lparr>programs := AList.delete p (programs e8)\<rparr>"
          have mid: "shaders ?mid = shaders e2" "programs ?mid = programs e"
            by (simp_all add: t8 delete_update_fresh [OF pfresh])
          have "release_detached f (release_detached v ?mid) = ?mid"
            using look_v look_f unflagged
            by (simp add: release_detached_unflagged [where s = ?vo] release_detached_unflagged [where s = ?fo] t8)
          then have e9: "?e9 = ?mid"
            using p0 by (simp add: glDeleteProgram_def t8 update_conv' po6_def)
          have "shaders ?e9 = AList.update f ?fo (AList.update v ?vo (shaders e))" "programs ?e9 = programs e"
            by (simp_all only: e9 mid sh2)
          moreover from this nav naf have "\<not> is_attached v ?e9" "\<not> is_attached f ?e9"
            by (simp_all add: is_attached_def)
          ultimately have "shaders (snd (createProgram_exit v f 0 ?e9)) = shaders e \<and>
              programs (snd (createProgram_exit v f 0 ?e9)) = programs e \<and>
              fst (createProgram_exit v f 0 ?e9) = 0"
            using exit_two_fresh [OF v0 vfresh f0 ffresh fv, of ?e9 ?fo ?vo 0] by simp
          moreover have "createProgram d vtxSrc fragSrc e = createProgram_exit v f 0 ?e9"
            using V F P v0 f0 p0 False status by (simp add: createProgram_def Let_def e8_def)
          ultimately show ?thesis by simp
        qed
      qed
    qed
  qed
qed

text \<open>
  An evaluation of the longest failure path: both shaders compile, the link fails.
\<close>

lemma demo_link_failure:
  "createProgram (demo_driver False) ''#version 300 es'' ''#version 100 es'' no_env =
     (0, no_env\<lparr>logcat := [ALOGE ''Could not link program'' [],
                             ALOGE ''Could not link program:\<newline>%s\<newline>'' [Str ''version mismatch'']]\<rparr>)"
  by (simp add: createProgram_def createShader_eq demo_driver_def no_env_def next_name_def
      compiled_shader_def glCreateProgram_def glAttachShader_def glLinkProgram_def
      glGetProgramiv_LINK_STATUS_def glGetProgramiv_INFO_LOG_LENGTH_def glGetProgramInfoLog_def
      glDeleteProgram_def release_detached_def glDeleteShader_def is_attached_def
      createProgram_exit_def log_print_def info_log_length_def Let_def GL_NO_ERROR_def)

theorem createProgram_result_witness:
  "fresh_names (demo_driver False) \<and> attachments_live no_env \<and>
   fst (createProgram (demo_driver False) ''#version 300 es'' ''#version 100 es'' no_env) = 0 \<and>
   shaders (snd (createProgram (demo_driver False) ''#version 300 es'' ''#version 100 es'' no_env)) = [] \<and>
   programs (snd (createProgram (demo_driver False) ''#version 300 es'' ''#version 100 es'' no_env)) = []"
proof -
  let ?R = "createProgram (demo_driver False) ''#version 300 es'' ''#version 100 es'' no_env"
  have a: "fresh_names (demo_driver False)"
    by (rule demo_driver_fresh)
  have b: "attachments_live no_env"
    by (simp add: attachments_live_def no_env_def)
  have zero: "fst ?R = 0"
    by (simp only: demo_link_failure fst_conv)
  from createProgram_result [OF a b, of "''#version 300 es''" "''#version 100 es''"] zero
  have "shaders (snd ?R) = shaders no_env \<and> programs (snd ?R) = programs no_env"
    by simp
  with a b zero show ?thesis
    by (simp add: no_env_def)
qed

subsection \<open>The JNI entry points\<close>

text \<open>
  Claim C8. While \<^verbatim>\<open>g_renderer\<close> is null, the entry points \<^verbatim>\<open>resize\<close> and \<^verbatim>\<open>step\<close>
  leave the whole state as it is: no renderer, no log line, no GL command.
\<close>

theorem uninitialized_calls_are_noops:
  assumes "g_renderer w = None"
  shows "Java_com_android_gles3jni_GLES3JNILib_resize fp c d junk width height w = w \<and>
         Java_com_android_gles3jni_GLES3JNILib_step fp c now w = w"
  using assms
  by (simp add: Java_com_android_gles3jni_GLES3JNILib_resize_def
      Java_com_android_gles3jni_GLES3JNILib_step_def)

theorem uninitialized_calls_are_noops_witness:
  "g_renderer no_renderer = None \<and>
   Java_com_android_gles3jni_GLES3JNILib_resize ieee one_quad tenths stale 1080 1920 no_renderer = no_renderer \<and>
   Java_com_android_gles3jni_GLES3JNILib_step ieee one_quad (at_time 1 0) no_renderer = no_renderer"
proof -
  have h: "g_renderer no_renderer = None"
    by (simp add: no_renderer_def)
  from uninitialized_calls_are_noops [OF h] h show ?thesis
    by blast
qed

lemma strstr_sublist: "strstr haystack needle \<noteq> None \<longleftrightarrow> sublist needle haystack"
  by (induction haystack) (simp_all add: sublist_Cons_right)

text \<open>
  Claim C9. \<^verbatim>\<open>init\<close> deletes the renderer it finds, if any, and then sets \<^verbatim>\<open>g_renderer\<close>
  to the result of \<^verbatim>\<open>createES3Renderer()\<close> if the version string contains
  \<^verbatim>\<open>OpenGL ES 3.\<close>, else to the result of \<^verbatim>\<open>createES2Renderer()\<close> if it contains
  \<^verbatim>\<open>OpenGL ES 2.\<close>; otherwise it logs an error and \<^verbatim>\<open>g_renderer\<close> is null.
\<close>

theorem init_selects_backend:
  "freed (Java_com_android_gles3jni_GLES3JNILib_init pf w) =
     freed w @ (case g_renderer w of None \<Rightarrow> [] | Some r \<Rightarrow> [r]) \<and>
   (if sublist ''OpenGL ES 3.'' (glGetString pf GL_VERSION)
    then g_renderer (Java_com_android_gles3jni_GLES3JNILib_init pf w) =
           fst (createES3Renderer pf
             (printGlString pf ''Extensions'' GL_EXTENSIONS
               (printGlString pf ''Renderer'' GL_RENDERER
                 (printGlString pf ''Vendor'' GL_VENDOR
                   (printGlString pf ''Version'' GL_VERSION (environ w))))))
    else if sublist ''OpenGL ES 2.'' (glGetString pf GL_VERSION)
    then g_renderer (Java_com_android_gles3jni_GLES3JNILib_init pf w) =
           fst (createES2Renderer pf
             (printGlString pf ''Extensions'' GL_EXTENSIONS
               (printGlString pf ''Renderer'' GL_RENDERER
                 (printGlString pf ''Vendor'' GL_VENDOR
                   (printGlString pf ''Version'' GL_VERSION (environ w))))))
    else g_renderer (Java_com_android_gles3jni_GLES3JNILib_init pf w) = None \<and>
         environ (Java_com_android_gles3jni_GLES3JNILib_init pf w) =
           log_print (ALOGE ''Unsupported OpenGL ES version'' [])
             (printGlString pf ''Extensions'' GL_EXTENSIONS
               (printGlString pf ''Renderer'' GL_RENDERER
                 (printGlString pf ''Vendor'' GL_VENDOR
                   (printGlString pf ''Version'' GL_VERSION (environ w))))))"
proof -
  have s3: "strstr (glGetString pf GL_VERSION) ''OpenGL ES 3.'' \<noteq> None \<longleftrightarrow>
            sublist ''OpenGL ES 3.'' (glGetString pf GL_VERSION)"
    by (rule strstr_sublist)
  have s2: "strstr (glGetString pf GL_VERSION) ''OpenGL ES 2.'' \<noteq> None \<longleftrightarrow>
            sublist ''OpenGL ES 2.'' (glGetString pf GL_VERSION)"
    by (rule strstr_sublist)
  show ?thesis
    unfolding Java_com_android_gles3jni_GLES3JNILib_init_def Let_def s3 s2 gl3stubInit_def
    by (cases "g_renderer w") simp_all
qed

end
